theory Spec2Isabelle
  imports Complex_Main
begin

section \<open>Data model (backend models/types.ts)\<close>

text \<open>
  The backend keeps agents, groups and calls in three JavaScript \<open>Map\<close>s keyed by id.
  Enums become datatypes, interfaces become records. Several interfaces share field
  names (\<open>id\<close>, \<open>name\<close>, \<open>status\<close>, \<open>statistics\<close>, \<open>phoneNumber\<close>, \<open>totalCalls\<close>);
  those fields carry the name of their interface as a prefix. Optional fields
  (\<open>f?: T\<close>) are \<open>option\<close>s, \<open>Date\<close>s are milliseconds as \<open>int\<close>, counters are
  \<open>int\<close>. A duration in seconds is a JavaScript double and is held as the rational it
  denotes. Each floating-point operation of the code on durations (the division by 1000,
  the sum and the average in \<open>releaseAgentFromCall\<close>) is the exact operation followed by
  the rounding \<open>roundToDouble\<close> of the environment, as IEEE 754 defines it; which double
  a rational rounds to is left open, and results are taken to be finite (no overflow, no NaN).
\<close>

datatype AgentStatus = AVAILABLE | BUSY | OFFLINE | IN_CALL

datatype CallStatus = INCOMING | RINGING | CONNECTED | ENDED | TRANSFERRED

record AgentStatistics =
  totalCalls :: int
  totalCallDuration :: rat
  averageCallDuration :: rat
  callsToday :: int
  callsThisWeek :: int
  callsThisMonth :: int
  lastCallTime :: "int option"

record Agent =
  agent_id :: string
  agent_name :: string
  email :: string
  username :: string
  password :: string
  agent_status :: AgentStatus
  groupIds :: "string list"
  currentCallId :: "string option"
  lastActivity :: int
  agent_statistics :: AgentStatistics
  acsUserId :: "string option"

record GroupStatistics =
  group_totalCalls :: int
  averageWaitTime :: rat
  callsInQueue :: int
  busyAgents :: int
  availableAgents :: int
  totalAgents :: int

record Group =
  group_id :: string
  group_name :: string
  location :: string
  group_phoneNumber :: string
  agentIds :: "string list"
  overflowGroupIds :: "string list"
  overflowEnabled :: bool
  group_statistics :: GroupStatistics

record Call =
  call_id :: string
  call_phoneNumber :: string
  groupId :: string
  assignedAgentId :: "string option"
  call_status :: CallStatus
  startTime :: int
  endTime :: "int option"
  duration :: "int option"
  waitTime :: "int option"
  acsCallConnectionId :: "string option"
  acsIncomingCallContext :: "string option"

record CreateAgentRequest =
  req_name :: string
  req_email :: string
  req_username :: string
  req_password :: string
  req_groupIds :: "string list"

text \<open>
  \<open>UpdateAgentRequest\<close>: every field may be absent (\<open>None\<close>: the spread keeps the old
  value). \<open>releaseAgentFromCall\<close> passes \<open>currentCallId: undefined\<close> explicitly, which
  the spread copies over the old value, so that field has three cases: absent,
  present and undefined (\<open>Some None\<close>), present with a value.
\<close>

record UpdateAgentRequest =
  upd_name :: "string option"
  upd_email :: "string option"
  upd_username :: "string option"
  upd_password :: "string option"
  upd_groupIds :: "string list option"
  upd_status :: "AgentStatus option"
  upd_currentCallId :: "string option option"
  upd_statistics :: "AgentStatistics option"

section \<open>The environment of one operation\<close>

text \<open>
  What an operation reads from outside the three stores: the clock (\<open>new Date()\<close>),
  the outcome of the private calendar predicates \<open>isToday\<close>, \<open>isThisWeek\<close> and
  \<open>isThisMonth\<close> on that date, the identifier \<open>uuidv4()\<close> returns, and the telephony
  gateway: whether a \<open>CallAutomationClient\<close> was configured, whether the callback URL
  is a localhost one, the text of \<open>Date.now()\<close> used in mock connection ids, and what
  the remote \<open>answerCall\<close>, \<open>transferCallToParticipant\<close> and \<open>hangUp\<close> requests do.
  \<open>roundToDouble\<close> is the rounding of an exact result to the double the machine stores.
\<close>

datatype AnswerOutcome = AnswerThrows | AnswerReturns "string option"

datatype HangUpOutcome = HangUpOk | HangUpCallNotFound | HangUpThrows

record Env =
  now :: int
  isToday :: bool
  isThisWeek :: bool
  isThisMonth :: bool
  uuidv4 :: string
  hasClient :: bool
  callbackIsLocal :: bool
  dateNowText :: string
  answerOutcome :: AnswerOutcome
  transferSucceeds :: bool
  hangUpOutcome :: HangUpOutcome
  roundToDouble :: "rat \<Rightarrow> rat"

section \<open>JavaScript Map as an association list in insertion order\<close>

text \<open>
  \<open>Map.get\<close> is \<open>map_of\<close>. \<open>Map.set\<close> overwrites the value of a key that is present
  and keeps its position, and appends a new key at the end. \<open>Map.values()\<close> lists the
  values in insertion order.
\<close>

fun mapSet :: "('k \<times> 'v) list \<Rightarrow> 'k \<Rightarrow> 'v \<Rightarrow> ('k \<times> 'v) list" where
  "mapSet [] k v = [(k, v)]"
| "mapSet ((k', v') # m) k v = (if k' = k then (k, v) # m else (k', v') # mapSet m k v)"

definition mapValues :: "('k \<times> 'v) list \<Rightarrow> 'v list" where
  "mapValues m = map snd m"

definition mapDelete :: "('k \<times> 'v) list \<Rightarrow> 'k \<Rightarrow> ('k \<times> 'v) list" where
  "mapDelete m k = filter (\<lambda>kv. fst kv \<noteq> k) m"

text \<open>JavaScript truthiness of an optional string and of an optional number.\<close>

definition truthyStr :: "string option \<Rightarrow> bool" where
  "truthyStr x = (case x of None \<Rightarrow> False | Some s \<Rightarrow> s \<noteq> [])"

definition truthyNum :: "int option \<Rightarrow> bool" where
  "truthyNum x = (case x of None \<Rightarrow> False | Some n \<Rightarrow> n \<noteq> 0)"

section \<open>AgentService (services/agentService.ts)\<close>

type_synonym AgentStore = "(string \<times> Agent) list"

definition zeroStatistics :: AgentStatistics where
  "zeroStatistics = \<lparr> totalCalls = 0, totalCallDuration = 0, averageCallDuration = 0,
     callsToday = 0, callsThisWeek = 0, callsThisMonth = 0, lastCallTime = None \<rparr>"

definition createAgent :: "Env \<Rightarrow> AgentStore \<Rightarrow> CreateAgentRequest \<Rightarrow> Agent \<times> AgentStore" where
  "createAgent env agents request =
     (let agent = \<lparr> agent_id = uuidv4 env, agent_name = req_name request,
                     email = req_email request, username = req_username request,
                     password = req_password request, agent_status = OFFLINE,
                     groupIds = req_groupIds request, currentCallId = None,
                     lastActivity = now env, agent_statistics = zeroStatistics,
                     acsUserId = None \<rparr>
      in (agent, mapSet agents (agent_id agent) agent))"

definition getAgent :: "AgentStore \<Rightarrow> string \<Rightarrow> Agent option" where
  "getAgent agents ident = map_of agents ident"

definition getAllAgents :: "AgentStore \<Rightarrow> Agent list" where
  "getAllAgents agents = mapValues agents"

definition getAgentsByGroup :: "AgentStore \<Rightarrow> string \<Rightarrow> Agent list" where
  "getAgentsByGroup agents gid = filter (\<lambda>agent. gid \<in> set (groupIds agent)) (mapValues agents)"

definition getAvailableAgentsByGroup :: "AgentStore \<Rightarrow> string \<Rightarrow> Agent list" where
  "getAvailableAgentsByGroup agents gid =
     filter (\<lambda>agent. agent_status agent = AVAILABLE) (getAgentsByGroup agents gid)"

definition noUpdates :: UpdateAgentRequest where
  "noUpdates = \<lparr> upd_name = None, upd_email = None, upd_username = None, upd_password = None,
     upd_groupIds = None, upd_status = None, upd_currentCallId = None, upd_statistics = None \<rparr>"

definition mergeAgent :: "Env \<Rightarrow> Agent \<Rightarrow> UpdateAgentRequest \<Rightarrow> Agent" where
  "mergeAgent env agent updates =
     agent \<lparr> agent_name := (case upd_name updates of None \<Rightarrow> agent_name agent | Some v \<Rightarrow> v),
             email := (case upd_email updates of None \<Rightarrow> email agent | Some v \<Rightarrow> v),
             username := (case upd_username updates of None \<Rightarrow> username agent | Some v \<Rightarrow> v),
             password := (case upd_password updates of None \<Rightarrow> password agent | Some v \<Rightarrow> v),
             groupIds := (case upd_groupIds updates of None \<Rightarrow> groupIds agent | Some v \<Rightarrow> v),
             agent_status := (case upd_status updates of None \<Rightarrow> agent_status agent | Some v \<Rightarrow> v),
             currentCallId := (case upd_currentCallId updates of None \<Rightarrow> currentCallId agent | Some v \<Rightarrow> v),
             agent_statistics :=
               (case upd_statistics updates of None \<Rightarrow> agent_statistics agent | Some v \<Rightarrow> v),
             lastActivity := now env \<rparr>"

definition updateAgent :: "Env \<Rightarrow> AgentStore \<Rightarrow> string \<Rightarrow> UpdateAgentRequest \<Rightarrow> Agent option \<times> AgentStore" where
  "updateAgent env agents ident updates =
     (case map_of agents ident of
        None \<Rightarrow> (None, agents)
      | Some agent \<Rightarrow>
          (let updatedAgent = mergeAgent env agent updates
           in (Some updatedAgent, mapSet agents ident updatedAgent)))"

definition updateAgentStatus :: "Env \<Rightarrow> AgentStore \<Rightarrow> string \<Rightarrow> AgentStatus \<Rightarrow> Agent option \<times> AgentStore" where
  "updateAgentStatus env agents ident st =
     updateAgent env agents ident (noUpdates \<lparr> upd_status := Some st \<rparr>)"

definition updateAgentACSUserId :: "Env \<Rightarrow> AgentStore \<Rightarrow> string \<Rightarrow> string \<Rightarrow> Agent option \<times> AgentStore" where
  "updateAgentACSUserId env agents ident uid =
     (case map_of agents ident of
        None \<Rightarrow> (None, agents)
      | Some agent \<Rightarrow>
          (let agent' = agent \<lparr> acsUserId := Some uid, lastActivity := now env \<rparr>
           in (Some agent', mapSet agents ident agent')))"

definition deleteAgent :: "AgentStore \<Rightarrow> string \<Rightarrow> bool \<times> AgentStore" where
  "deleteAgent agents ident = (map_of agents ident \<noteq> None, mapDelete agents ident)"

definition assignCallToAgent :: "Env \<Rightarrow> AgentStore \<Rightarrow> string \<Rightarrow> string \<Rightarrow> bool \<times> AgentStore" where
  "assignCallToAgent env agents agentId callId =
     (case map_of agents agentId of
        None \<Rightarrow> (False, agents)
      | Some agent \<Rightarrow>
          if agent_status agent \<noteq> AVAILABLE then (False, agents)
          else (True, snd (updateAgent env agents agentId
                  (noUpdates \<lparr> upd_status := Some IN_CALL, upd_currentCallId := Some (Some callId) \<rparr>))))"

definition newStatistics :: "Env \<Rightarrow> AgentStatistics \<Rightarrow> rat \<Rightarrow> AgentStatistics" where
  "newStatistics env st callDuration =
     st \<lparr> totalCalls := totalCalls st + 1,
          totalCallDuration := roundToDouble env (totalCallDuration st + callDuration),
          averageCallDuration :=
            roundToDouble env (roundToDouble env (totalCallDuration st + callDuration)
                                 / of_int (totalCalls st + 1)),
          callsToday := (if isToday env then callsToday st + 1 else 1),
          callsThisWeek := (if isThisWeek env then callsThisWeek st + 1 else 1),
          callsThisMonth := (if isThisMonth env then callsThisMonth st + 1 else 1),
          lastCallTime := Some (now env) \<rparr>"

definition releaseAgentFromCall :: "Env \<Rightarrow> AgentStore \<Rightarrow> string \<Rightarrow> rat \<Rightarrow> bool \<times> AgentStore" where
  "releaseAgentFromCall env agents agentId callDuration =
     (case map_of agents agentId of
        None \<Rightarrow> (False, agents)
      | Some agent \<Rightarrow>
          (True, snd (updateAgent env agents agentId
             (noUpdates \<lparr> upd_status := Some AVAILABLE, upd_currentCallId := Some None,
                          upd_statistics := Some (newStatistics env (agent_statistics agent) callDuration) \<rparr>))))"

section \<open>GroupService (services/groupService.ts) and the shared state\<close>

text \<open>
  \<open>GroupService\<close> holds a reference to the \<open>AgentService\<close> and \<open>CallService\<close> to both,
  so the three stores form one state. \<open>notifications\<close> is the log of the requests made
  to the \<open>WebSocketService\<close> (recipient and message type; delivery is best effort and
  the payload is left out).
\<close>

datatype Notification =
    NotifyAgent string string
  | NotifySupervisors string
  | Broadcast string

record System =
  agents :: AgentStore
  groups :: "(string \<times> Group) list"
  calls :: "(string \<times> Call) list"
  notifications :: "Notification list"

record CreateGroupRequest =
  greq_name :: string
  greq_location :: string
  greq_phoneNumber :: string
  greq_overflowEnabled :: "bool option"
  greq_overflowGroupIds :: "string list option"

definition zeroGroupStatistics :: GroupStatistics where
  "zeroGroupStatistics = \<lparr> group_totalCalls = 0, averageWaitTime = 0, callsInQueue = 0,
     busyAgents = 0, availableAgents = 0, totalAgents = 0 \<rparr>"

definition createGroup :: "Env \<Rightarrow> System \<Rightarrow> CreateGroupRequest \<Rightarrow> Group \<times> System" where
  "createGroup env s request =
     (let grp = \<lparr> group_id = uuidv4 env, group_name = greq_name request,
                     location = greq_location request,
                     group_phoneNumber = greq_phoneNumber request, agentIds = [],
                     overflowGroupIds =
                       (case greq_overflowGroupIds request of None \<Rightarrow> [] | Some ids \<Rightarrow> ids),
                     overflowEnabled =
                       (case greq_overflowEnabled request of None \<Rightarrow> False | Some b \<Rightarrow> b),
                     group_statistics = zeroGroupStatistics \<rparr>
      in (grp, s \<lparr> groups := mapSet (groups s) (group_id grp) grp \<rparr>))"

definition getGroup :: "System \<Rightarrow> string \<Rightarrow> Group option" where
  "getGroup s ident = map_of (groups s) ident"

definition getGroupByPhoneNumber :: "System \<Rightarrow> string \<Rightarrow> Group option" where
  "getGroupByPhoneNumber s phoneNumber =
     find (\<lambda>grp. group_phoneNumber grp = phoneNumber) (mapValues (groups s))"

definition updateGroupStatistics :: "System \<Rightarrow> string \<Rightarrow> System" where
  "updateGroupStatistics s gid =
     (case map_of (groups s) gid of
        None \<Rightarrow> s
      | Some grp \<Rightarrow>
          (let ags = getAgentsByGroup (agents s) gid;
               availableAgs = filter (\<lambda>agent. agent_status agent = AVAILABLE) ags;
               busyAgs = filter (\<lambda>agent. agent_status agent = BUSY \<or> agent_status agent = IN_CALL) ags;
               st = (group_statistics grp)
                      \<lparr> totalAgents := int (length ags),
                        availableAgents := int (length availableAgs),
                        busyAgents := int (length busyAgs) \<rparr>
           in s \<lparr> groups := mapSet (groups s) gid (grp \<lparr> group_statistics := st \<rparr>) \<rparr>))"

definition addAgentToGroup :: "Env \<Rightarrow> System \<Rightarrow> string \<Rightarrow> string \<Rightarrow> bool \<times> System" where
  "addAgentToGroup env s gid agentId =
     (case map_of (groups s) gid of
        None \<Rightarrow> (False, s)
      | Some grp \<Rightarrow>
         (case getAgent (agents s) agentId of
            None \<Rightarrow> (False, s)
          | Some agent \<Rightarrow>
             (let s1 = (if agentId \<notin> set (agentIds grp)
                        then s \<lparr> groups := mapSet (groups s) gid
                                   (grp \<lparr> agentIds := agentIds grp @ [agentId] \<rparr>) \<rparr>
                        else s);
                  s2 = (if gid \<notin> set (groupIds agent)
                        then s1 \<lparr> agents := snd (updateAgent env (agents s1) agentId
                                    (noUpdates \<lparr> upd_groupIds := Some (groupIds agent @ [gid]) \<rparr>)) \<rparr>
                        else s1)
              in (True, updateGroupStatistics s2 gid))))"

definition removeAgentFromGroup :: "Env \<Rightarrow> System \<Rightarrow> string \<Rightarrow> string \<Rightarrow> bool \<times> System" where
  "removeAgentFromGroup env s gid agentId =
     (case map_of (groups s) gid of
        None \<Rightarrow> (False, s)
      | Some grp \<Rightarrow>
         (case getAgent (agents s) agentId of
            None \<Rightarrow> (False, s)
          | Some agent \<Rightarrow>
             (let s1 = s \<lparr> groups := mapSet (groups s) gid
                          (grp \<lparr> agentIds := filter (\<lambda>i. i \<noteq> agentId) (agentIds grp) \<rparr>) \<rparr>;
                  s2 = s1 \<lparr> agents := snd (updateAgent env (agents s1) agentId
                          (noUpdates \<lparr> upd_groupIds := Some (filter (\<lambda>i. i \<noteq> gid) (groupIds agent)) \<rparr>)) \<rparr>
              in (True, updateGroupStatistics s2 gid))))"

text \<open>
  \<open>getAvailableGroups\<close>: the overflow ids are mapped through \<open>Map.get\<close>, and the filter
  drops the ids without a grp and the groups that have no available agent.
\<close>

definition getAvailableGroups :: "System \<Rightarrow> string \<Rightarrow> Group list" where
  "getAvailableGroups s originalGroupId =
     (case map_of (groups s) originalGroupId of
        None \<Rightarrow> []
      | Some originalGroup \<Rightarrow>
          if \<not> overflowEnabled originalGroup then []
          else List.map_filter
                 (\<lambda>found. case found of
                      None \<Rightarrow> None
                    | Some grp \<Rightarrow>
                        if length (getAvailableAgentsByGroup (agents s) (group_id grp)) > 0
                        then Some grp else None)
                 (map (map_of (groups s)) (overflowGroupIds originalGroup)))"

definition setOverflowGroups :: "System \<Rightarrow> string \<Rightarrow> string list \<Rightarrow> bool \<times> System" where
  "setOverflowGroups s gid ids =
     (case map_of (groups s) gid of
        None \<Rightarrow> (False, s)
      | Some grp \<Rightarrow>
          (True, s \<lparr> groups := mapSet (groups s) gid (grp \<lparr> overflowGroupIds := ids \<rparr>) \<rparr>))"

definition enableOverflow :: "System \<Rightarrow> string \<Rightarrow> bool \<Rightarrow> bool \<times> System" where
  "enableOverflow s gid enabled =
     (case map_of (groups s) gid of
        None \<Rightarrow> (False, s)
      | Some grp \<Rightarrow>
          (True, s \<lparr> groups := mapSet (groups s) gid (grp \<lparr> overflowEnabled := enabled \<rparr>) \<rparr>))"

section \<open>ACSService: the telephony gateway (services/acsService.ts)\<close>

text \<open>
  \<open>extractCallConnectionInfo\<close> reads the connection id and the incoming call context
  of the webhook event; the context may also sit in one of three nested places, of
  which \<open>ev_nestedContext\<close> is the first truthy one.
\<close>

record ACSEventData =
  ev_callConnectionId :: "string option"
  ev_incomingCallContext :: "string option"
  ev_nestedContext :: "string option"

definition extractCallConnectionInfo :: "ACSEventData \<Rightarrow> string option \<times> string option" where
  "extractCallConnectionInfo eventData =
     (ev_callConnectionId eventData,
      if \<not> truthyStr (ev_incomingCallContext eventData) then ev_nestedContext eventData
      else ev_incomingCallContext eventData)"

text \<open>
  \<open>ACSService.answerCall\<close> returns its verdict, the call object (it stores the
  connection id in it) and the notifications sent on the way. The hand-over to the
  agent (\<open>transferCallToAgent\<close>) catches its own failure and its result is not used.
\<close>

definition acsAnswerCall :: "Env \<Rightarrow> Call \<Rightarrow> string option \<Rightarrow> string \<Rightarrow> bool \<times> Call \<times> Notification list" where
  "acsAnswerCall env call agentUserId agentId =
     (if \<not> hasClient env then (True, call, [])
      else if \<not> truthyStr (acsIncomingCallContext call) then (False, call, [])
      else if callbackIsLocal env
        then (True, call \<lparr> acsCallConnectionId := Some (''mock-connection-'' @ dateNowText env) \<rparr>, [])
      else (case answerOutcome env of
              AnswerThrows \<Rightarrow> (False, call, [])
            | AnswerReturns callConnectionId \<Rightarrow>
                if truthyStr callConnectionId
                then (True, call \<lparr> acsCallConnectionId := callConnectionId \<rparr>,
                      if truthyStr agentUserId \<and> transferSucceeds env \<and> agentId \<noteq> []
                      then [NotifyAgent agentId ''acs_call_transfer_incoming''] else [])
                else (True, call, [])))"

definition acsEndCall :: "Env \<Rightarrow> Call \<Rightarrow> bool" where
  "acsEndCall env call =
     (if \<not> hasClient env then True
      else if \<not> truthyStr (acsCallConnectionId call) then True
      else if (case acsCallConnectionId call of
                 None \<Rightarrow> False
               | Some c \<Rightarrow> take (length ''mock-connection-'') c = ''mock-connection-'') then True
      else (case hangUpOutcome env of
              HangUpOk \<Rightarrow> True
            | HangUpCallNotFound \<Rightarrow> True
            | HangUpThrows \<Rightarrow> False))"

section \<open>CallService (services/callService.ts)\<close>

text \<open>
  A \<open>Call\<close> object is created once, put in the \<open>calls\<close> map and mutated in place, so
  every assignment to one of its fields is visible in the map: \<open>storeCall\<close> writes the
  object back under its id after each mutation. The \<open>async\<close> methods are modelled as
  running to completion: each gateway request is awaited and its outcome is read from
  the environment; two requests interleaving at an \<open>await\<close> are outside this model.
\<close>

definition storeCall :: "System \<Rightarrow> Call \<Rightarrow> System" where
  "storeCall s call = s \<lparr> calls := mapSet (calls s) (call_id call) call \<rparr>"

definition notify :: "System \<Rightarrow> Notification list \<Rightarrow> System" where
  "notify s ns = s \<lparr> notifications := notifications s @ ns \<rparr>"

text \<open>The private \<open>CallService.assignCallToAgent\<close>: the first available agent of the call's group.\<close>

definition routeCallToAgent :: "Env \<Rightarrow> System \<Rightarrow> Call \<Rightarrow> Agent option \<times> System" where
  "routeCallToAgent env s call =
     (case getAvailableAgentsByGroup (agents s) (groupId call) of
        [] \<Rightarrow> (None, s)
      | selectedAgent # _ \<Rightarrow>
          (case assignCallToAgent env (agents s) (agent_id selectedAgent) (call_id call) of
             (True, ags) \<Rightarrow> (Some selectedAgent, s \<lparr> agents := ags \<rparr>)
           | (False, ags) \<Rightarrow> (None, s \<lparr> agents := ags \<rparr>)))"

text \<open>The loop of \<open>tryOverflowRouting\<close> over the groups \<open>getAvailableGroups\<close> returned.\<close>

fun overflowLoop :: "Env \<Rightarrow> System \<Rightarrow> Call \<Rightarrow> Group list \<Rightarrow> bool \<times> System \<times> Call" where
  "overflowLoop env s call [] = (False, s, call)"
| "overflowLoop env s call (grp # rest) =
     (if length (getAvailableAgentsByGroup (agents s) (group_id grp)) > 0
      then (let call1 = call \<lparr> groupId := group_id grp \<rparr>;
                s1 = storeCall s call1
            in case routeCallToAgent env s1 call1 of
                 (Some assignedAgent, s2) \<Rightarrow>
                   (let call2 = call1 \<lparr> assignedAgentId := Some (agent_id assignedAgent),
                                        call_status := RINGING \<rparr>
                    in (True,
                        notify (storeCall s2 call2) [NotifyAgent (agent_id assignedAgent) ''call_incoming''],
                        call2))
               | (None, s2) \<Rightarrow> overflowLoop env s2 call1 rest)
      else overflowLoop env s call rest)"

definition tryOverflowRouting :: "Env \<Rightarrow> System \<Rightarrow> Call \<Rightarrow> bool \<times> System \<times> Call" where
  "tryOverflowRouting env s call = overflowLoop env s call (getAvailableGroups s (groupId call))"

definition handleIncomingCall :: "Env \<Rightarrow> System \<Rightarrow> string \<Rightarrow> string \<Rightarrow> ACSEventData option \<Rightarrow> Call option \<times> System" where
  "handleIncomingCall env s phoneNumber callerNumber acsEventData =
     (case getGroupByPhoneNumber s phoneNumber of
        None \<Rightarrow> (None, s)
      | Some grp \<Rightarrow>
          (let acsConnectionInfo =
                 (case acsEventData of None \<Rightarrow> (None, None)
                                     | Some ev \<Rightarrow> extractCallConnectionInfo ev);
               call = \<lparr> call_id = uuidv4 env, call_phoneNumber = callerNumber,
                        groupId = group_id grp, assignedAgentId = None,
                        call_status = INCOMING, startTime = now env, endTime = None,
                        duration = None, waitTime = None,
                        acsCallConnectionId = fst acsConnectionInfo,
                        acsIncomingCallContext = snd acsConnectionInfo \<rparr>;
               s1 = storeCall s call
           in case routeCallToAgent env s1 call of
                (Some assignedAgent, s2) \<Rightarrow>
                  (let call1 = call \<lparr> assignedAgentId := Some (agent_id assignedAgent),
                                      call_status := RINGING \<rparr>
                   in (Some call1,
                       notify (storeCall s2 call1) [NotifyAgent (agent_id assignedAgent) ''call_incoming'']))
              | (None, s2) \<Rightarrow>
                  (case tryOverflowRouting env s2 call of
                     (overflowSuccess, s3, call3) \<Rightarrow> (Some call3, s3))))"

text \<open>
  \<open>answerCall\<close> reads the agent's ACS user id, a property \<open>updateAgentACSUserId\<close> attaches
  to the agent object; it is undefined when the agent is unknown or has none.
\<close>

definition agentACSUserId :: "System \<Rightarrow> string \<Rightarrow> string option" where
  "agentACSUserId s agentId =
     (case getAgent (agents s) agentId of None \<Rightarrow> None | Some a \<Rightarrow> acsUserId a)"

definition answerCall :: "Env \<Rightarrow> System \<Rightarrow> string \<Rightarrow> string \<Rightarrow> bool \<times> System" where
  "answerCall env s callId agentId =
     (case map_of (calls s) callId of
        None \<Rightarrow> (False, s)
      | Some call \<Rightarrow>
          if assignedAgentId call \<noteq> Some agentId \<or> call_status call \<noteq> RINGING then (False, s)
          else (case acsAnswerCall env call (agentACSUserId s agentId) agentId of
                     (False, call1, sent) \<Rightarrow>
                       (False, notify (s \<lparr> calls := mapSet (calls s) callId call1 \<rparr>) sent)
                   | (True, call1, sent) \<Rightarrow>
                       (let call2 = call1 \<lparr> call_status := CONNECTED \<rparr>;
                            s1 = notify (s \<lparr> calls := mapSet (calls s) callId call2 \<rparr>) sent;
                            agent = getAgent (agents s1) agentId;
                            s2 = updateGroupStatistics s1 (groupId call2)
                        in (True,
                            notify s2 (Broadcast ''call_answered'' #
                              (case agent of
                                 None \<Rightarrow> []
                               | Some a \<Rightarrow> [NotifyAgent agentId ''agent_status_update'',
                                            NotifySupervisors ''agent_status_updated'']))))))"

definition endCall :: "Env \<Rightarrow> System \<Rightarrow> string \<Rightarrow> string option \<Rightarrow> bool \<times> System" where
  "endCall env s callId agentId =
     (case map_of (calls s) callId of
        None \<Rightarrow> (False, s)
      | Some call \<Rightarrow>
          if truthyStr agentId \<and> assignedAgentId call \<noteq> agentId then (False, s)
          else if \<not> acsEndCall env call then (False, s)
          else (let assigned = assignedAgentId call;
                    d = now env - startTime call;
                    call1 = call \<lparr> call_status := ENDED, endTime := Some (now env),
                                   duration := Some d \<rparr>;
                    releasing = (truthyStr assigned \<and> truthyNum (duration call1));
                    call2 = (if releasing then call1 \<lparr> waitTime := Some 0 \<rparr> else call1);
                    ags = (case assigned of
                             None \<Rightarrow> agents s
                           | Some a \<Rightarrow>
                               if releasing
                               then snd (releaseAgentFromCall env (agents s) a (roundToDouble env (of_int d / 1000)))
                               else agents s);
                    s1 = s \<lparr> agents := ags, calls := mapSet (calls s) callId call2 \<rparr>;
                    agent = (case assigned of
                               None \<Rightarrow> None
                             | Some a \<Rightarrow> if truthyStr assigned then getAgent (agents s1) a else None);
                    s2 = updateGroupStatistics s1 (groupId call2)
                in (True,
                    notify s2 (Broadcast ''call_ended'' #
                      (case (agent, assigned) of
                         (Some _, Some a) \<Rightarrow> [NotifyAgent a ''agent_status_update'',
                                              NotifySupervisors ''agent_status_updated'']
                       | _ \<Rightarrow> [])))))"

definition transferCall :: "Env \<Rightarrow> System \<Rightarrow> string \<Rightarrow> string \<Rightarrow> string \<Rightarrow> bool \<times> System" where
  "transferCall env s callId fromAgentId toAgentId =
     (case map_of (calls s) callId of
        None \<Rightarrow> (False, s)
      | Some call \<Rightarrow>
         (case getAgent (agents s) toAgentId of
            None \<Rightarrow> (False, s)
          | Some toAgent \<Rightarrow>
             if assignedAgentId call \<noteq> Some fromAgentId \<or> agent_status toAgent \<noteq> AVAILABLE
             then (False, s)
             else (let ags1 = (case duration call of
                                 None \<Rightarrow> agents s
                               | Some d \<Rightarrow>
                                   if truthyNum (duration call)
                                   then snd (releaseAgentFromCall env (agents s) fromAgentId (roundToDouble env (of_int d / 1000)))
                                   else agents s)
                   in case assignCallToAgent env ags1 toAgentId callId of
                        (True, ags2) \<Rightarrow>
                          (True,
                           notify (s \<lparr> agents := ags2,
                                       calls := mapSet (calls s) callId
                                         (call \<lparr> assignedAgentId := Some toAgentId,
                                                 call_status := TRANSFERRED \<rparr>) \<rparr>)
                             [NotifyAgent fromAgentId ''call_transferred_out'',
                              NotifyAgent toAgentId ''call_transferred_in''])
                      | (False, ags2) \<Rightarrow> (False, s \<lparr> agents := ags2 \<rparr>))))"

section \<open>Sequences of public operations\<close>

text \<open>
  The public operations of the three services that the properties below speak of, each
  run in the environment it meets. \<open>run\<close> applies a sequence of them to a state;
  \<open>initialSystem\<close> is the state at process start, without the development test data.
\<close>

datatype Operation =
    CreateAgent CreateAgentRequest
  | UpdateAgentStatus string AgentStatus
  | AssignCallToAgent string string
  | ReleaseAgentFromCall string rat
  | CreateGroup CreateGroupRequest
  | AddAgentToGroup string string
  | HandleIncomingCall string string "ACSEventData option"
  | AnswerCall string string
  | EndCall string "string option"
  | TransferCall string string string

fun step :: "Env \<Rightarrow> Operation \<Rightarrow> System \<Rightarrow> System" where
  "step env (CreateAgent request) s = s \<lparr> agents := snd (createAgent env (agents s) request) \<rparr>"
| "step env (UpdateAgentStatus ident st) s = s \<lparr> agents := snd (updateAgentStatus env (agents s) ident st) \<rparr>"
| "step env (AssignCallToAgent agentId callId) s =
     s \<lparr> agents := snd (assignCallToAgent env (agents s) agentId callId) \<rparr>"
| "step env (ReleaseAgentFromCall agentId callDuration) s =
     s \<lparr> agents := snd (releaseAgentFromCall env (agents s) agentId callDuration) \<rparr>"
| "step env (CreateGroup request) s = snd (createGroup env s request)"
| "step env (AddAgentToGroup gid agentId) s = snd (addAgentToGroup env s gid agentId)"
| "step env (HandleIncomingCall phoneNumber callerNumber ev) s =
     snd (handleIncomingCall env s phoneNumber callerNumber ev)"
| "step env (AnswerCall callId agentId) s = snd (answerCall env s callId agentId)"
| "step env (EndCall callId agentId) s = snd (endCall env s callId agentId)"
| "step env (TransferCall callId fromAgentId toAgentId) s =
     snd (transferCall env s callId fromAgentId toAgentId)"

fun run :: "(Env \<times> Operation) list \<Rightarrow> System \<Rightarrow> System" where
  "run [] s = s"
| "run ((env, op) # rest) s = run rest (step env op s)"

definition initialSystem :: System where
  "initialSystem = \<lparr> agents = [], groups = [], calls = [], notifications = [] \<rparr>"



text \<open>The call half: the live calls (\<open>RINGING\<close> or \<open>CONNECTED\<close>) assigned to an agent.\<close>

definition liveCallsOf :: "System \<Rightarrow> string \<Rightarrow> Call list" where
  "liveCallsOf s agentId =
     filter (\<lambda>call. assignedAgentId call = Some agentId \<and>
                     (call_status call = RINGING \<or> call_status call = CONNECTED))
            (mapValues (calls s))"




section \<open>Store invariant and the overflow candidates, stated declaratively\<close>

text \<open>
  \<open>createAgent\<close> files an agent under its own id and no update changes an id, so each key
  of the agent map is the id of its agent, once.
\<close>

definition wellKeyed :: "AgentStore \<Rightarrow> bool" where
  "wellKeyed ags = (distinct (map fst ags) \<and> list_all (\<lambda>ka. agent_id (snd ka) = fst ka) ags)"

text \<open>A group has capacity when some agent lists it among its groups and is \<open>AVAILABLE\<close>.\<close>

definition hasAvailableAgent :: "System \<Rightarrow> string \<Rightarrow> bool" where
  "hasAvailableAgent s gid =
     list_ex (\<lambda>a. gid \<in> set (groupIds a) \<and> agent_status a = AVAILABLE) (mapValues (agents s))"

section \<open>Concrete scenarios\<close>

text \<open>
  \<open>envAt t u\<close> is the development configuration (no ACS connection string, so the
  gateway is mocked and every gateway request succeeds) at time \<open>t\<close>, with \<open>u\<close> the next
  generated id. \<open>gatewayEnv\<close> is a configured gateway with a public callback URL.
  Every duration that the scenarios compute is a whole or a half number of seconds far
  below \<open>2^52\<close>, which a double holds exactly, so their rounding is the identity.
\<close>

definition envAt :: "int \<Rightarrow> string \<Rightarrow> Env" where
  "envAt t u = \<lparr> now = t, isToday = True, isThisWeek = True, isThisMonth = True, uuidv4 = u,
     hasClient = False, callbackIsLocal = True, dateNowText = [], answerOutcome = AnswerThrows,
     transferSucceeds = False, hangUpOutcome = HangUpThrows, roundToDouble = (\<lambda>x. x) \<rparr>"

definition gatewayEnv :: "AnswerOutcome \<Rightarrow> Env" where
  "gatewayEnv outcome = (envAt 3000 []) \<lparr> hasClient := True, callbackIsLocal := False,
     answerOutcome := outcome \<rparr>"

definition agentRequest :: "string \<Rightarrow> CreateAgentRequest" where
  "agentRequest n = \<lparr> req_name = n, req_email = [], req_username = n, req_password = [],
     req_groupIds = [] \<rparr>"

definition groupRequest :: "string \<Rightarrow> string \<Rightarrow> CreateGroupRequest" where
  "groupRequest n p = \<lparr> greq_name = n, greq_location = [], greq_phoneNumber = p,
     greq_overflowEnabled = None, greq_overflowGroupIds = None \<rparr>"


text \<open>
  Group \<open>g1\<close> with number +15550100 and agent \<open>a1\<close>, a second agent \<open>a2\<close> outside the
  group, both available; a call to the number rings at \<open>a1\<close> as call \<open>c1\<close>.
\<close>

definition ringingRun :: "(Env \<times> Operation) list" where
  "ringingRun = [(envAt 1 ''g1'', CreateGroup (groupRequest ''G'' ''+15550100'')),
                 (envAt 2 ''a1'', CreateAgent (agentRequest ''X'')),
                 (envAt 3 ''a2'', CreateAgent (agentRequest ''Y'')),
                 (envAt 4 [], AddAgentToGroup ''g1'' ''a1''),
                 (envAt 5 [], UpdateAgentStatus ''a1'' AVAILABLE),
                 (envAt 6 [], UpdateAgentStatus ''a2'' AVAILABLE),
                 (envAt 1000 ''c1'', HandleIncomingCall ''+15550100'' ''+15550199'' None)]"

definition ringing :: System where
  "ringing = run ringingRun initialSystem"




text \<open>The same call answered by \<open>a1\<close> and ended by \<open>a1\<close> one minute after it came in.\<close>

definition endedOnce :: System where
  "endedOnce = run (ringingRun @ [(envAt 3000 [], AnswerCall ''c1'' ''a1''),
                                  (envAt 61000 [], EndCall ''c1'' (Some ''a1''))]) initialSystem"

text \<open>
  After that, a second call \<open>c2\<close> rings at \<open>a1\<close>, the ended call \<open>c1\<close> is ended once
  more, and a third call \<open>c3\<close> comes in.
\<close>

definition endedTwiceRun :: "(Env \<times> Operation) list" where
  "endedTwiceRun = ringingRun @
     [(envAt 3000 [], AnswerCall ''c1'' ''a1''),
      (envAt 61000 [], EndCall ''c1'' (Some ''a1'')),
      (envAt 70000 ''c2'', HandleIncomingCall ''+15550100'' ''+15550188'' None),
      (envAt 71000 [], EndCall ''c1'' (Some ''a1'')),
      (envAt 72000 ''c3'', HandleIncomingCall ''+15550100'' ''+15550177'' None)]"

text \<open>One agent just created, hence \<open>OFFLINE\<close>.\<close>

definition idleAgents :: AgentStore where
  "idleAgents = agents (run [(envAt 1 ''a1'', CreateAgent (agentRequest ''X''))] initialSystem)"


text \<open>The ringing call again, this time with the incoming call context of a real webhook.\<close>

definition ringingWithContext :: System where
  "ringingWithContext = run (butlast ringingRun @
     [(envAt 1000 ''c1'', HandleIncomingCall ''+15550100'' ''+15550199''
         (Some \<lparr> ev_callConnectionId = None, ev_incomingCallContext = Some ''ctx'',
                  ev_nestedContext = None \<rparr>))]) initialSystem"

text \<open>
  Group \<open>gA\<close> overflows to \<open>gB\<close>, the unknown \<open>gZ\<close> and \<open>gC\<close>, in that order. \<open>gB\<close> has one
  agent, who is offline; \<open>gC\<close> has one available agent; \<open>gA\<close> has none. \<open>gB\<close> and \<open>gC\<close>
  have overflow disabled.
\<close>

definition overflowRun :: "(Env \<times> Operation) list" where
  "overflowRun = [(envAt 1 ''gB'', CreateGroup (groupRequest ''B'' ''+15550101'')),
                  (envAt 2 ''gC'', CreateGroup (groupRequest ''C'' ''+15550102'')),
                  (envAt 3 ''gA'', CreateGroup ((groupRequest ''A'' ''+15550100'')
                      \<lparr> greq_overflowEnabled := Some True,
                        greq_overflowGroupIds := Some [''gB'', ''gZ'', ''gC''] \<rparr>)),
                  (envAt 4 ''a1'', CreateAgent (agentRequest ''X'')),
                  (envAt 5 ''a2'', CreateAgent (agentRequest ''Y'')),
                  (envAt 6 [], AddAgentToGroup ''gB'' ''a1''),
                  (envAt 7 [], AddAgentToGroup ''gC'' ''a2''),
                  (envAt 8 [], UpdateAgentStatus ''a2'' AVAILABLE)]"

definition overflowReady :: System where
  "overflowReady = run overflowRun initialSystem"

definition incomingCallFor :: "string \<Rightarrow> Call" where
  "incomingCallFor gid = \<lparr> call_id = ''c1'', call_phoneNumber = ''+15550199'', groupId = gid,
     assignedAgentId = None, call_status = INCOMING, startTime = 1000, endTime = None,
     duration = None, waitTime = None, acsCallConnectionId = None,
     acsIncomingCallContext = None \<rparr>"

section \<open>Properties of the Map model\<close>

lemma map_of_mapSet: "map_of (mapSet m k v) k' = (if k' = k then Some v else map_of m k')"
  by (induction m) auto

lemma mapSet_same_value: "map_of m k = Some v \<Longrightarrow> mapSet m k v = m"
  by (induction m) (auto split: if_splits)

section \<open>AgentService: the store after an update\<close>

lemma updateAgent_lookup:
  "map_of (snd (updateAgent env ags ident u)) k =
     (if k = ident then map_option (\<lambda>a. mergeAgent env a u) (map_of ags ident) else map_of ags k)"
  by (auto simp: updateAgent_def map_of_mapSet Let_def split: option.splits)

lemma assign_ok_iff:
  "fst (assignCallToAgent env ags aid cid) = (\<exists>a. map_of ags aid = Some a \<and> agent_status a = AVAILABLE)"
  by (auto simp: assignCallToAgent_def split: option.splits)

lemma assign_fail_same: "\<not> fst (assignCallToAgent env ags aid cid) \<Longrightarrow> snd (assignCallToAgent env ags aid cid) = ags"
  by (auto simp: assignCallToAgent_def split: option.splits)

lemma assign_lookup:
  "fst (assignCallToAgent env ags aid cid) \<Longrightarrow>
   map_of (snd (assignCallToAgent env ags aid cid)) k =
     (if k = aid then map_option (\<lambda>a. a\<lparr>agent_status := IN_CALL, currentCallId := Some cid, lastActivity := now env\<rparr>) (map_of ags aid)
      else map_of ags k)"
  by (auto simp: assignCallToAgent_def updateAgent_lookup mergeAgent_def noUpdates_def split: option.splits if_splits)

lemma release_lookup:
  "map_of (snd (releaseAgentFromCall env ags aid d)) k =
     (if k = aid then map_option (\<lambda>a. a\<lparr>agent_status := AVAILABLE, currentCallId := None,
          agent_statistics := newStatistics env (agent_statistics a) d, lastActivity := now env\<rparr>) (map_of ags aid)
      else map_of ags k)"
  by (auto simp: releaseAgentFromCall_def updateAgent_lookup mergeAgent_def noUpdates_def split: option.splits if_splits)


section \<open>Values and keys of a Map after a write\<close>




lemma keys_mapSet: "set (map fst (mapSet m k v)) = insert k (set (map fst m))"
  by (induction m k v rule: mapSet.induct) auto

lemma distinct_mapSet: "distinct (map fst m) \<Longrightarrow> distinct (map fst (mapSet m k v))"
  by (induction m k v rule: mapSet.induct) (auto simp: keys_mapSet simp del: set_map)

lemma set_mapSet: "set (mapSet m k v) \<subseteq> insert (k, v) (set m)"
  by (induction m k v rule: mapSet.induct) auto

section \<open>What every operation preserves in the agent store\<close>

text \<open>
  The call and group operations touch the agent store only through \<open>createAgent\<close>,
  \<open>assignCallToAgent\<close>, \<open>releaseAgentFromCall\<close> and a \<open>groupIds\<close> update, so a property of
  the store that these four keep is kept by every operation; the direct status write is
  left to each property.
\<close>

lemma agents_updateGroupStatistics [simp]: "agents (updateGroupStatistics s gid) = agents s"
  by (simp add: updateGroupStatistics_def Let_def split: option.splits)

lemma agents_storeCall [simp]: "agents (storeCall s c) = agents s"
  by (simp add: storeCall_def)

lemma agents_notify [simp]: "agents (notify s ns) = agents s"
  by (simp add: notify_def)

lemma agents_answerCall: "agents (snd (answerCall env s cid aid)) = agents s"
  by (auto simp: answerCall_def Let_def split: option.splits prod.splits bool.splits)

lemma preserved_route:
  assumes asg: "\<And>env ags aid cid. P ags \<Longrightarrow> P (snd (assignCallToAgent env ags aid cid))"
    and a: "P (agents s)"
  shows "P (agents (snd (routeCallToAgent env s call)))"
proof (cases "getAvailableAgentsByGroup (agents s) (groupId call)")
  case Nil
  then show ?thesis using a by (simp add: routeCallToAgent_def)
next
  case (Cons sel rest)
  obtain ok ags where r: "assignCallToAgent env (agents s) (agent_id sel) (call_id call) = (ok, ags)"
    by (cases "assignCallToAgent env (agents s) (agent_id sel) (call_id call)")
  have "P ags"
    using asg [OF a, of env "agent_id sel" "call_id call"] r by simp
  then show ?thesis using Cons r by (cases ok) (simp_all add: routeCallToAgent_def)
qed

lemma preserved_overflowLoop:
  assumes asg: "\<And>env ags aid cid. P ags \<Longrightarrow> P (snd (assignCallToAgent env ags aid cid))"
  shows "P (agents s) \<Longrightarrow> P (agents (fst (snd (overflowLoop env s call gs))))"
proof (induction gs arbitrary: s call)
  case Nil
  then show ?case by simp
next
  case (Cons g gs)
  show ?case
  proof (cases "length (getAvailableAgentsByGroup (agents s) (group_id g)) > 0")
    case False
    then show ?thesis using Cons by simp
  next
    case True
    let ?c1 = "call \<lparr> groupId := group_id g \<rparr>"
    let ?s1 = "storeCall s ?c1"
    have c1: "P (agents ?s1)" using Cons.prems by simp
    obtain r s2 where rt: "routeCallToAgent env ?s1 ?c1 = (r, s2)"
      by (cases "routeCallToAgent env ?s1 ?c1")
    have c2: "P (agents s2)"
      using preserved_route [of P, OF asg c1, of env ?c1] rt by simp
    show ?thesis
    proof (cases r)
      case None
      then show ?thesis using True rt Cons.IH [OF c2] by (simp add: Let_def)
    next
      case (Some a)
      then show ?thesis using True rt c2 by (simp add: Let_def)
    qed
  qed
qed

lemma preserved_handleIncomingCall:
  assumes asg: "\<And>env ags aid cid. P ags \<Longrightarrow> P (snd (assignCallToAgent env ags aid cid))"
    and a: "P (agents s)"
  shows "P (agents (snd (handleIncomingCall env s p c ev)))"
proof (cases "getGroupByPhoneNumber s p")
  case None
  then show ?thesis using a by (simp add: handleIncomingCall_def)
next
  case (Some g)
  define call where "call = \<lparr> call_id = uuidv4 env, call_phoneNumber = c,
                        groupId = group_id g, assignedAgentId = None,
                        call_status = INCOMING, startTime = now env, endTime = None,
                        duration = None, waitTime = None,
                        acsCallConnectionId = fst (case ev of None \<Rightarrow> (None, None) | Some e \<Rightarrow> extractCallConnectionInfo e),
                        acsIncomingCallContext = snd (case ev of None \<Rightarrow> (None, None) | Some e \<Rightarrow> extractCallConnectionInfo e) \<rparr>"
  obtain r s2 where rt: "routeCallToAgent env (storeCall s call) call = (r, s2)"
    by (cases "routeCallToAgent env (storeCall s call) call")
  have c2: "P (agents s2)"
    using preserved_route [of P "storeCall s call" env call, OF asg] a rt by simp
  show ?thesis
  proof (cases r)
    case None
    obtain ok s3 c3 where ov: "tryOverflowRouting env s2 call = (ok, s3, c3)"
      by (cases "tryOverflowRouting env s2 call") auto
    have "P (agents s3)"
      using preserved_overflowLoop [of P, OF asg c2, of env call "getAvailableGroups s2 (groupId call)"] ov
      by (simp add: tryOverflowRouting_def)
    then show ?thesis using Some None rt ov
      by (simp add: handleIncomingCall_def Let_def call_def)
  next
    case (Some a)
    then show ?thesis using \<open>getGroupByPhoneNumber s p = Some g\<close> rt c2
      by (simp add: handleIncomingCall_def Let_def call_def)
  qed
qed

lemma preserved_endCall:
  assumes rel: "\<And>env ags aid d. P ags \<Longrightarrow> P (snd (releaseAgentFromCall env ags aid d))"
    and a: "P (agents s)"
  shows "P (agents (snd (endCall env s cid aid)))"
  using a rel [OF a] by (auto simp: endCall_def Let_def split: option.splits)

lemma preserved_transferCall:
  assumes asg: "\<And>env ags aid cid. P ags \<Longrightarrow> P (snd (assignCallToAgent env ags aid cid))"
    and rel: "\<And>env ags aid d. P ags \<Longrightarrow> P (snd (releaseAgentFromCall env ags aid d))"
    and a: "P (agents s)"
  shows "P (agents (snd (transferCall env s cid f t)))"
proof (cases "map_of (calls s) cid")
  case None
  then show ?thesis using a by (simp add: transferCall_def)
next
  case (Some call)
  show ?thesis
  proof (cases "getAgent (agents s) t")
    case None
    then show ?thesis using a Some by (simp add: transferCall_def)
  next
    case (Some toAgent)
    define ags1 where "ags1 = (case duration call of
                                 None \<Rightarrow> agents s
                               | Some d \<Rightarrow>
                                   if truthyNum (duration call)
                                   then snd (releaseAgentFromCall env (agents s) f (roundToDouble env (of_int d / 1000)))
                                   else agents s)"
    have c1: "P ags1"
      using a rel [OF a] by (simp add: ags1_def split: option.splits)
    obtain ok ags2 where as: "assignCallToAgent env ags1 t cid = (ok, ags2)"
      by (cases "assignCallToAgent env ags1 t cid")
    have c2: "P ags2"
      using asg [OF c1, of env t cid] as by simp
    show ?thesis
      using a \<open>map_of (calls s) cid = Some call\<close> Some as c2
      by (cases ok) (simp_all add: transferCall_def ags1_def [symmetric])
  qed
qed

lemma preserved_addAgentToGroup:
  assumes upd: "\<And>env ags aid gs. P ags \<Longrightarrow>
                  P (snd (updateAgent env ags aid (noUpdates \<lparr> upd_groupIds := Some gs \<rparr>)))"
    and a: "P (agents s)"
  shows "P (agents (snd (addAgentToGroup env s gid aid)))"
  using a upd [OF a] by (auto simp: addAgentToGroup_def Let_def split: option.splits)

lemma preserved_step:
  assumes cre: "\<And>env ags request. P ags \<Longrightarrow> P (snd (createAgent env ags request))"
    and asg: "\<And>env ags aid cid. P ags \<Longrightarrow> P (snd (assignCallToAgent env ags aid cid))"
    and rel: "\<And>env ags aid d. P ags \<Longrightarrow> P (snd (releaseAgentFromCall env ags aid d))"
    and upd: "\<And>env ags aid gs. P ags \<Longrightarrow>
                  P (snd (updateAgent env ags aid (noUpdates \<lparr> upd_groupIds := Some gs \<rparr>)))"
    and sta: "\<And>ident st. op = UpdateAgentStatus ident st \<Longrightarrow>
                  P (snd (updateAgentStatus env (agents s) ident st))"
    and a: "P (agents s)"
  shows "P (agents (step env op s))"
proof (cases op)
  case (CreateAgent request)
  then show ?thesis using cre [OF a] by simp
next
  case (UpdateAgentStatus ident st)
  then show ?thesis using sta by simp
next
  case (AssignCallToAgent x y)
  then show ?thesis using asg [OF a] by simp
next
  case (ReleaseAgentFromCall x y)
  then show ?thesis using rel [OF a] by simp
next
  case (CreateGroup request)
  then show ?thesis using a by (simp add: createGroup_def Let_def)
next
  case (AddAgentToGroup x y)
  then show ?thesis using preserved_addAgentToGroup [of P, OF upd a] by simp
next
  case (HandleIncomingCall x y z)
  then show ?thesis using preserved_handleIncomingCall [of P, OF asg a] by simp
next
  case (AnswerCall x y)
  then show ?thesis using a by (simp add: agents_answerCall)
next
  case (EndCall x y)
  then show ?thesis using preserved_endCall [of P, OF rel a] by simp
next
  case (TransferCall x y z)
  then show ?thesis using preserved_transferCall [of P, OF asg rel a] by simp
qed

section \<open>Status and currentCallId\<close>









section \<open>Keys of the agent store\<close>

lemma wellKeyed_mapSet:
  "wellKeyed ags \<Longrightarrow> agent_id a = k \<Longrightarrow> wellKeyed (mapSet ags k a)"
  using set_mapSet [of ags k a] by (auto simp: wellKeyed_def distinct_mapSet list_all_iff)

lemma wellKeyed_lookup: "wellKeyed ags \<Longrightarrow> map_of ags k = Some a \<Longrightarrow> agent_id a = k"
  by (auto simp: wellKeyed_def list_all_iff dest!: map_of_SomeD)

lemma wellKeyed_value: "wellKeyed ags \<Longrightarrow> a \<in> set (mapValues ags) \<Longrightarrow> map_of ags (agent_id a) = Some a"
  by (auto simp: wellKeyed_def list_all_iff mapValues_def)

lemma wellKeyed_updateAgent: "wellKeyed ags \<Longrightarrow> wellKeyed (snd (updateAgent env ags ident u))"
  by (auto simp: updateAgent_def Let_def split: option.splits
      intro!: wellKeyed_mapSet dest: wellKeyed_lookup simp: mergeAgent_def)

lemma wellKeyed_createAgent: "wellKeyed ags \<Longrightarrow> wellKeyed (snd (createAgent env ags request))"
  by (simp add: createAgent_def Let_def wellKeyed_mapSet)

lemma wellKeyed_assign: "wellKeyed ags \<Longrightarrow> wellKeyed (snd (assignCallToAgent env ags aid cid))"
  by (simp add: assignCallToAgent_def wellKeyed_updateAgent split: option.splits)

lemma wellKeyed_release: "wellKeyed ags \<Longrightarrow> wellKeyed (snd (releaseAgentFromCall env ags aid d))"
  by (simp add: releaseAgentFromCall_def wellKeyed_updateAgent split: option.splits)

lemma wellKeyed_step: "wellKeyed (agents s) \<Longrightarrow> wellKeyed (agents (step env op s))"
  by (rule preserved_step [of wellKeyed])
     (simp_all add: wellKeyed_createAgent wellKeyed_assign wellKeyed_release wellKeyed_updateAgent
        updateAgentStatus_def)

lemma wellKeyed_run: "wellKeyed (agents s) \<Longrightarrow> wellKeyed (agents (run ops s))"
  by (induction ops arbitrary: s) (auto simp: wellKeyed_step)

lemma wellKeyed_reachable: "wellKeyed (agents (run ops initialSystem))"
  by (rule wellKeyed_run) (simp add: initialSystem_def wellKeyed_def)

section \<open>Release, answer, transfer and end\<close>

lemma calls_updateGroupStatistics [simp]: "calls (updateGroupStatistics s gid) = calls s"
  by (simp add: updateGroupStatistics_def Let_def split: option.splits)

lemma calls_notify [simp]: "calls (notify s ns) = calls s"
  by (simp add: notify_def)


lemma acs_fail_unchanged:
  "\<not> fst (acsAnswerCall env call uid aid) \<Longrightarrow> acsAnswerCall env call uid aid = (False, call, [])"
  by (auto simp: acsAnswerCall_def split: if_splits AnswerOutcome.splits)

lemma notify_nil [simp]: "notify s [] = s"
  by (simp add: notify_def)

lemma answer_fail_unchanged: "\<not> fst (answerCall env s cid aid) \<Longrightarrow> snd (answerCall env s cid aid) = s"
proof (cases "map_of (calls s) cid")
  case None
  then show ?thesis by (simp add: answerCall_def)
next
  case (Some call)
  assume nf: "\<not> fst (answerCall env s cid aid)"
  show ?thesis
  proof (cases "assignedAgentId call \<noteq> Some aid \<or> call_status call \<noteq> RINGING")
    case True
    then show ?thesis using Some by (auto simp add: answerCall_def)
  next
    case False
    obtain ok c1 sent where r: "acsAnswerCall env call (agentACSUserId s aid) aid = (ok, c1, sent)"
      by (cases "acsAnswerCall env call (agentACSUserId s aid) aid") auto
    have "\<not> ok" using nf Some False r
      by (cases ok) (auto simp: answerCall_def Let_def)
    then have "c1 = call" "sent = []" using acs_fail_unchanged [of env call "agentACSUserId s aid" aid] r by auto
    then show ?thesis using Some False r \<open>\<not> ok\<close>
      by (auto simp: answerCall_def Let_def mapSet_same_value)
  qed
qed

lemma answer_success:
  assumes "fst (answerCall env s cid aid)"
  shows "\<exists>call. map_of (calls s) cid = Some call \<and> assignedAgentId call = Some aid
           \<and> call_status call = RINGING
           \<and> fst (acsAnswerCall env call (agentACSUserId s aid) aid)
           \<and> map_option call_status (map_of (calls (snd (answerCall env s cid aid))) cid) = Some CONNECTED"
proof (cases "map_of (calls s) cid")
  case None
  then show ?thesis using assms by (simp add: answerCall_def)
next
  case (Some call)
  have pre: "assignedAgentId call = Some aid \<and> call_status call = RINGING"
    using assms Some by (auto simp: answerCall_def split: if_splits)
  obtain ok c1 sent where r: "acsAnswerCall env call (agentACSUserId s aid) aid = (ok, c1, sent)"
    by (cases "acsAnswerCall env call (agentACSUserId s aid) aid") auto
  have ok using assms Some pre r by (cases ok) (auto simp: answerCall_def Let_def)
  then show ?thesis using Some pre r
    by (auto simp: answerCall_def Let_def map_of_mapSet)
qed

lemma answer_gateway_failure:
  assumes "map_of (calls s) cid = Some call" "assignedAgentId call = Some aid" "call_status call = RINGING"
    "\<not> fst (acsAnswerCall env call (agentACSUserId s aid) aid)"
  shows "answerCall env s cid aid = (False, s)"
proof -
  have "\<not> fst (answerCall env s cid aid)"
    using answer_success [of env s cid aid] assms by auto
  then show ?thesis using answer_fail_unchanged [of env s cid aid] by (cases "answerCall env s cid aid") auto
qed

lemma transfer_result:
  assumes c: "map_of (calls s) cid = Some call" and f: "assignedAgentId call = Some from"
    and t: "map_of (agents s) to = Some ta" and av: "agent_status ta = AVAILABLE"
  shows "fst (transferCall env s cid from to)
     \<and> map_of (calls (snd (transferCall env s cid from to))) cid
          = Some (call \<lparr> assignedAgentId := Some to, call_status := TRANSFERRED \<rparr>)
     \<and> (\<exists>ta'. map_of (agents (snd (transferCall env s cid from to))) to = Some ta'
             \<and> agent_status ta' = IN_CALL \<and> currentCallId ta' = Some cid)
     \<and> notifications (snd (transferCall env s cid from to))
          = notifications s @ [NotifyAgent from ''call_transferred_out'', NotifyAgent to ''call_transferred_in'']
     \<and> (to \<noteq> from \<longrightarrow> \<not> truthyNum (duration call) \<longrightarrow>
          map_of (agents (snd (transferCall env s cid from to))) from = map_of (agents s) from)"
proof -
  define ags1 where "ags1 = (case duration call of
                                 None \<Rightarrow> agents s
                               | Some d \<Rightarrow>
                                   if truthyNum (duration call)
                                   then snd (releaseAgentFromCall env (agents s) from (roundToDouble env (of_int d / 1000)))
                                   else agents s)"
  have l1: "\<exists>a1. map_of ags1 to = Some a1 \<and> agent_status a1 = AVAILABLE"
    using t av by (auto simp: ags1_def release_lookup split: option.splits)
  have l1': "\<not> truthyNum (duration call) \<Longrightarrow> ags1 = agents s"
    by (auto simp: ags1_def split: option.splits)
  obtain ok ags2 where as: "assignCallToAgent env ags1 to cid = (ok, ags2)"
    by (cases "assignCallToAgent env ags1 to cid")
  have ok: ok using assign_ok_iff [of env ags1 to cid] l1 as by simp
  have l2: "map_of ags2 k = (if k = to then map_option (\<lambda>a. a\<lparr>agent_status := IN_CALL, currentCallId := Some cid, lastActivity := now env\<rparr>) (map_of ags1 to)
      else map_of ags1 k)" for k
    using assign_lookup [of env ags1 to cid k] as ok by simp 
  have res: "transferCall env s cid from to = (True,
                           notify (s \<lparr> agents := ags2,
                                       calls := mapSet (calls s) cid
                                         (call \<lparr> assignedAgentId := Some to,
                                                 call_status := TRANSFERRED \<rparr>) \<rparr>)
                             [NotifyAgent from ''call_transferred_out'',
                              NotifyAgent to ''call_transferred_in''])"
    using c f t av as ok by (simp add: transferCall_def getAgent_def ags1_def [symmetric])
  show ?thesis
    using l1 l2 l1' by (auto simp: res map_of_mapSet notify_def)
qed

lemma endCall_result:
  assumes c: "map_of (calls s) cid = Some call" and f: "assignedAgentId call = Some a" and ne: "a \<noteq> []"
    and ag: "map_of (agents s) a = Some agent"
    and auth: "who = None \<or> who = Some a"
    and gw: "acsEndCall env call"
    and d: "now env \<noteq> startTime call"
  shows "fst (endCall env s cid who)
     \<and> (\<exists>agent'. map_of (agents (snd (endCall env s cid who))) a = Some agent'
           \<and> agent_status agent' = AVAILABLE \<and> currentCallId agent' = None
           \<and> totalCalls (agent_statistics agent') = totalCalls (agent_statistics agent) + 1)
     \<and> map_option call_status (map_of (calls (snd (endCall env s cid who))) cid) = Some ENDED
     \<and> map_option assignedAgentId (map_of (calls (snd (endCall env s cid who))) cid) = Some (Some a)"
  using assms
  by (auto simp: endCall_def Let_def truthyStr_def truthyNum_def release_lookup newStatistics_def
      map_of_mapSet)

section \<open>Group membership\<close>

lemma updateGroupStatistics_idem:
  "updateGroupStatistics (updateGroupStatistics s gid) gid = updateGroupStatistics s gid"
  by (cases "map_of (groups s) gid")
     (simp_all add: updateGroupStatistics_def Let_def map_of_mapSet mapSet_same_value)

lemma groups_lookup_updateGroupStatistics:
  "map_option agentIds (map_of (groups (updateGroupStatistics s gid)) k) = map_option agentIds (map_of (groups s) k)"
  by (cases "map_of (groups s) gid")
     (auto simp: updateGroupStatistics_def Let_def map_of_mapSet)

lemma addAgentToGroup_first:
  assumes g: "map_of (groups s) gid = Some g" and a: "map_of (agents s) aid = Some a"
  shows "fst (addAgentToGroup env s gid aid)
     \<and> map_option agentIds (map_of (groups (snd (addAgentToGroup env s gid aid))) gid)
         = Some (if aid \<in> set (agentIds g) then agentIds g else agentIds g @ [aid])
     \<and> map_option groupIds (map_of (agents (snd (addAgentToGroup env s gid aid))) aid)
         = Some (if gid \<in> set (groupIds a) then groupIds a else groupIds a @ [gid])"
  using assms
  by (auto simp: addAgentToGroup_def getAgent_def Let_def groups_lookup_updateGroupStatistics
      map_of_mapSet updateAgent_lookup mergeAgent_def noUpdates_def)

lemma addAgentToGroup_member:
  assumes g: "map_of (groups s) gid = Some g" and a: "map_of (agents s) aid = Some a"
    and m1: "aid \<in> set (agentIds g)" and m2: "gid \<in> set (groupIds a)"
  shows "addAgentToGroup env s gid aid = (True, updateGroupStatistics s gid)"
  using assms by (simp add: addAgentToGroup_def getAgent_def)

lemma addAgentToGroup_twice:
  assumes g: "map_of (groups s) gid = Some g" and a: "map_of (agents s) aid = Some a"
  shows "addAgentToGroup env' (snd (addAgentToGroup env s gid aid)) gid aid
           = (True, snd (addAgentToGroup env s gid aid))"
proof -
  let ?s1 = "snd (addAgentToGroup env s gid aid)"
  have f: "map_option agentIds (map_of (groups ?s1) gid)
         = Some (if aid \<in> set (agentIds g) then agentIds g else agentIds g @ [aid])"
     "map_option groupIds (map_of (agents ?s1) aid)
         = Some (if gid \<in> set (groupIds a) then groupIds a else groupIds a @ [gid])"
    using addAgentToGroup_first [OF g a, of env] by auto
  then obtain g1 a1 where g1: "map_of (groups ?s1) gid = Some g1" "aid \<in> set (agentIds g1)"
    and a1: "map_of (agents ?s1) aid = Some a1" "gid \<in> set (groupIds a1)"
    by (auto split: if_splits)
  have st: "\<exists>s2. ?s1 = updateGroupStatistics s2 gid"
    using g a by (auto simp: addAgentToGroup_def getAgent_def Let_def)
  then have "updateGroupStatistics ?s1 gid = ?s1"
    by (auto simp: updateGroupStatistics_idem)
  then show ?thesis
    using addAgentToGroup_member [OF g1(1) a1(1) g1(2) a1(2), of env'] by simp
qed

section \<open>Overflow candidates and the overflow loop\<close>

lemma hasAvailable_iff: "hasAvailableAgent s gid = (length (getAvailableAgentsByGroup (agents s) gid) > 0)"
  by (auto simp: hasAvailableAgent_def getAvailableAgentsByGroup_def getAgentsByGroup_def
      list_ex_iff filter_empty_conv)

lemma map_filter_as_concat:
  "List.map_filter f xs = concat (map (\<lambda>x. case f x of None \<Rightarrow> [] | Some y \<Rightarrow> [y]) xs)"
  by (induction xs) (auto simp: List.map_filter_simps split: option.splits)

lemma getAvailableGroups_disabled:
  "map_of (groups s) gid = None \<or> (\<exists>g. map_of (groups s) gid = Some g \<and> \<not> overflowEnabled g)
   \<Longrightarrow> getAvailableGroups s gid = []"
  by (auto simp: getAvailableGroups_def)

lemma getAvailableGroups_enabled:
  assumes "map_of (groups s) gid = Some g" "overflowEnabled g"
  shows "getAvailableGroups s gid =
           concat (map (\<lambda>i. case map_of (groups s) i of
                               None \<Rightarrow> []
                             | Some og \<Rightarrow> if hasAvailableAgent s (group_id og) then [og] else [])
                       (overflowGroupIds g))"
  using assms
  by (auto simp: getAvailableGroups_def map_filter_as_concat hasAvailable_iff comp_def
      intro!: arg_cong [where f = concat] split: option.splits)

lemma getAvailableGroups_members:
  "og \<in> set (getAvailableGroups s gid) \<Longrightarrow> hasAvailableAgent s (group_id og)"
  by (auto simp: getAvailableGroups_def hasAvailable_iff List.map_filter_def
      split: option.splits if_splits)

lemma route_first_available:
  assumes wk: "wellKeyed (agents s)"
    and av: "getAvailableAgentsByGroup (agents s) (groupId call) = agent # rest"
  shows "\<exists>ags. routeCallToAgent env s call = (Some agent, s \<lparr> agents := ags \<rparr>)
           \<and> ags = snd (assignCallToAgent env (agents s) (agent_id agent) (call_id call))
           \<and> fst (assignCallToAgent env (agents s) (agent_id agent) (call_id call))"
proof -
  have "agent \<in> set (getAvailableAgentsByGroup (agents s) (groupId call))" using av by simp
  then have m: "agent \<in> set (mapValues (agents s))" and st: "agent_status agent = AVAILABLE"
    by (auto simp: getAvailableAgentsByGroup_def getAgentsByGroup_def)
  have lk: "map_of (agents s) (agent_id agent) = Some agent"
    using wellKeyed_value [OF wk m] .
  have ok: "fst (assignCallToAgent env (agents s) (agent_id agent) (call_id call))"
    using lk st by (simp add: assign_ok_iff)
  then show ?thesis using av
    by (cases "assignCallToAgent env (agents s) (agent_id agent) (call_id call)")
       (auto simp: routeCallToAgent_def)
qed

lemma overflow_first_group:
  assumes wk: "wellKeyed (agents s)"
    and gs: "getAvailableGroups s (groupId call) = first # others"
  shows "\<exists>agent rest s'.
           getAvailableAgentsByGroup (agents s) (group_id first) = agent # rest
         \<and> tryOverflowRouting env s call =
             (True, s', call \<lparr> groupId := group_id first, assignedAgentId := Some (agent_id agent),
                                call_status := RINGING \<rparr>)
         \<and> map_of (calls s') (call_id call) =
             Some (call \<lparr> groupId := group_id first, assignedAgentId := Some (agent_id agent),
                           call_status := RINGING \<rparr>)
         \<and> (\<exists>a'. map_of (agents s') (agent_id agent) = Some a' \<and> agent_status a' = IN_CALL
                  \<and> currentCallId a' = Some (call_id call))
         \<and> notifications s' = notifications s @ [NotifyAgent (agent_id agent) ''call_incoming'']"
proof -
  have "first \<in> set (getAvailableGroups s (groupId call))" using gs by simp
  then have h: "length (getAvailableAgentsByGroup (agents s) (group_id first)) > 0"
    using getAvailableGroups_members hasAvailable_iff by blast
  then obtain agent rest where av: "getAvailableAgentsByGroup (agents s) (group_id first) = agent # rest"
    by (cases "getAvailableAgentsByGroup (agents s) (group_id first)") auto
  let ?c1 = "call \<lparr> groupId := group_id first \<rparr>"
  let ?s1 = "storeCall s ?c1"
  have wk1: "wellKeyed (agents ?s1)" using wk by simp
  have av1: "getAvailableAgentsByGroup (agents ?s1) (groupId ?c1) = agent # rest" using av by simp
  obtain ags where r: "routeCallToAgent env ?s1 ?c1 = (Some agent, ?s1 \<lparr> agents := ags \<rparr>)"
    and ags: "ags = snd (assignCallToAgent env (agents s) (agent_id agent) (call_id call))"
    and ok: "fst (assignCallToAgent env (agents s) (agent_id agent) (call_id call))"
    using route_first_available [OF wk1 av1, of env] by auto
  have lk: "map_of (agents s) (agent_id agent) \<noteq> None"
    using ok by (auto simp: assign_ok_iff)
  show ?thesis
    using h av r ags gs assign_lookup [OF ok, of "agent_id agent"] lk
    by (auto simp: tryOverflowRouting_def Let_def storeCall_def notify_def map_of_mapSet)
qed

lemma overflow_none: "getAvailableGroups s (groupId call) = [] \<Longrightarrow> tryOverflowRouting env s call = (False, s, call)"
  by (simp add: tryOverflowRouting_def)

section \<open>Gateway success, and calls that stay unassigned\<close>

lemma answer_gateway_success:
  assumes "map_of (calls s) cid = Some call" "assignedAgentId call = Some aid" "call_status call = RINGING"
    "fst (acsAnswerCall env call (agentACSUserId s aid) aid)"
  shows "fst (answerCall env s cid aid)"
proof -
  obtain ok c1 sent where r: "acsAnswerCall env call (agentACSUserId s aid) aid = (ok, c1, sent)"
    by (cases "acsAnswerCall env call (agentACSUserId s aid) aid") auto
  then have ok using assms(4) by simp
  then show ?thesis using assms(1-3) r by (simp add: answerCall_def Let_def)
qed

lemma getAvailableGroups_storeCall [simp]: "getAvailableGroups (storeCall s c) gid = getAvailableGroups s gid"
  by (simp add: getAvailableGroups_def storeCall_def split: option.splits)

lemma handleIncomingCall_unassigned:
  assumes g: "getGroupByPhoneNumber s p = Some g"
    and av: "\<not> hasAvailableAgent s (group_id g)"
    and ov: "getAvailableGroups s (group_id g) = []"
  shows "\<exists>call. handleIncomingCall env s p c ev = (Some call, storeCall s call)
           \<and> call_id call = uuidv4 env \<and> groupId call = group_id g
           \<and> call_status call = INCOMING \<and> assignedAgentId call = None"
proof -
  have e: "getAvailableAgentsByGroup (agents s) (group_id g) = []"
    using av by (simp add: hasAvailable_iff)
  show ?thesis
    using g e ov
    by (simp add: handleIncomingCall_def Let_def routeCallToAgent_def tryOverflowRouting_def)
qed

lemma getAvailableGroups_comprehension:
  assumes "map_of (groups s) gid = Some g" "overflowEnabled g"
  shows "getAvailableGroups s gid =
           [og. i \<leftarrow> overflowGroupIds g, Some og \<leftarrow> [map_of (groups s) i],
                hasAvailableAgent s (group_id og)]"
  unfolding getAvailableGroups_enabled [OF assms]
  by (rule arg_cong [where f = concat]) (auto split: option.splits)

section \<open>The claims\<close>

subsection \<open>C1: status, currentCallId and live calls\<close>




subsection \<open>C2: ending a call twice\<close>

text \<open>
  Claim C2 asks that a second \<open>endCall\<close> on a call already ended changes nothing or is
  rejected. \<open>endCall\<close> does not look at the status of the call: on a call that is
  \<open>ENDED\<close> and still carries its agent, with the gateway hang-up succeeding and a clock
  that has moved past the start of the call, it succeeds again, sets the agent
  \<open>AVAILABLE\<close> again and counts one more call for that agent.
\<close>

theorem endCall_again_releases_again:
  assumes "map_of (calls s) callId = Some call" and "call_status call = ENDED"
    and "assignedAgentId call = Some a" and "a \<noteq> []"
    and "map_of (agents s) a = Some agent"
    and "who = None \<or> who = Some a"
    and "acsEndCall env call"
    and "now env \<noteq> startTime call"
  shows "fst (endCall env s callId who)
     \<and> (\<exists>agent'. map_of (agents (snd (endCall env s callId who))) a = Some agent'
           \<and> agent_status agent' = AVAILABLE \<and> currentCallId agent' = None
           \<and> totalCalls (agent_statistics agent') = totalCalls (agent_statistics agent) + 1)"
  using endCall_result [OF assms(1) assms(3-8)] by blast

theorem endCall_again_releases_again_witness:
  "map_option call_status (map_of (calls endedOnce) ''c1'') = Some ENDED
   \<and> map_option (\<lambda>x. totalCalls (agent_statistics x)) (map_of (agents endedOnce) ''a1'') = Some 1
   \<and> fst (endCall (envAt 62000 []) endedOnce ''c1'' (Some ''a1''))
   \<and> map_option (\<lambda>x. totalCalls (agent_statistics x))
        (map_of (agents (snd (endCall (envAt 62000 []) endedOnce ''c1'' (Some ''a1'')))) ''a1'') = Some 2"
proof -
  define call where "call = the (map_of (calls endedOnce) ''c1'')"
  define agent where "agent = the (map_of (agents endedOnce) ''a1'')"
  have c: "map_of (calls endedOnce) ''c1'' = Some call" unfolding call_def by code_simp
  have st: "call_status call = ENDED" unfolding call_def by code_simp
  have as: "assignedAgentId call = Some ''a1''" unfolding call_def by code_simp
  have gw: "acsEndCall (envAt 62000 []) call" unfolding call_def by code_simp
  have t: "now (envAt 62000 []) \<noteq> startTime call" unfolding call_def by code_simp
  have a: "map_of (agents endedOnce) ''a1'' = Some agent" unfolding agent_def by code_simp
  have n: "totalCalls (agent_statistics agent) = 1" unfolding agent_def by code_simp
  have w: "Some ''a1'' = None \<or> Some ''a1'' = Some ''a1''" by simp
  from endCall_again_releases_again [OF c st as _ a w gw t] c st a n
  show ?thesis by auto
qed

text \<open>
  The same defect binds an agent to two live calls. After \<open>c1\<close> was ended, a second call
  \<open>c2\<close> rings at \<open>a1\<close>; ending \<open>c1\<close> once more releases \<open>a1\<close> although \<open>c2\<close> is still
  ringing, and the third call \<open>c3\<close> is assigned to \<open>a1\<close> as well.
\<close>

lemma second_endCall_frees_a_ringing_agent:
  "map (\<lambda>c. (call_id c, call_status c)) (liveCallsOf (run endedTwiceRun initialSystem) ''a1'')
     = [(''c2'', RINGING), (''c3'', RINGING)]
   \<and> map_option (\<lambda>x. totalCalls (agent_statistics x))
        (map_of (agents (run endedTwiceRun initialSystem)) ''a1'') = Some 2"
  by code_simp

subsection \<open>C3: transferring a live call\<close>

text \<open>
  Claim C3 has \<open>transferCall\<close> release the origin agent with the duration elapsed so far.
  The release is guarded by \<open>call.duration\<close>, which only \<open>endCall\<close> writes, so for a call
  that was never ended the origin agent is left as it was: the transfer succeeds, the
  call becomes \<open>TRANSFERRED\<close> and the target agent is reserved, while the origin keeps
  its status, its \<open>currentCallId\<close> and its statistics.
\<close>

theorem transferCall_live_call_keeps_origin:
  assumes "map_of (calls s) callId = Some call" and "assignedAgentId call = Some fromAgentId"
    and "duration call = None"
    and "map_of (agents s) toAgentId = Some toAgent" and "agent_status toAgent = AVAILABLE"
    and "toAgentId \<noteq> fromAgentId"
  shows "fst (transferCall env s callId fromAgentId toAgentId)
     \<and> map_of (agents (snd (transferCall env s callId fromAgentId toAgentId))) fromAgentId
          = map_of (agents s) fromAgentId
     \<and> map_of (calls (snd (transferCall env s callId fromAgentId toAgentId))) callId
          = Some (call \<lparr> assignedAgentId := Some toAgentId, call_status := TRANSFERRED \<rparr>)
     \<and> (\<exists>ta'. map_of (agents (snd (transferCall env s callId fromAgentId toAgentId))) toAgentId = Some ta'
             \<and> agent_status ta' = IN_CALL \<and> currentCallId ta' = Some callId)"
proof -
  have "\<not> truthyNum (duration call)" using assms(3) by (simp add: truthyNum_def)
  then show ?thesis
    using transfer_result [OF assms(1,2,4,5), of env] assms(6) by blast
qed

theorem transferCall_live_call_keeps_origin_witness:
  "map_option call_status (map_of (calls ringing) ''c1'') = Some RINGING
   \<and> map_option assignedAgentId (map_of (calls ringing) ''c1'') = Some (Some ''a1'')
   \<and> map_option agent_status (map_of (agents ringing) ''a2'') = Some AVAILABLE
   \<and> fst (transferCall (envAt 2000 []) ringing ''c1'' ''a1'' ''a2'')
   \<and> map_option agent_status
        (map_of (agents (snd (transferCall (envAt 2000 []) ringing ''c1'' ''a1'' ''a2''))) ''a1'') = Some IN_CALL
   \<and> map_option currentCallId
        (map_of (agents (snd (transferCall (envAt 2000 []) ringing ''c1'' ''a1'' ''a2''))) ''a1'') = Some (Some ''c1'')
   \<and> map_option (\<lambda>x. totalCalls (agent_statistics x))
        (map_of (agents (snd (transferCall (envAt 2000 []) ringing ''c1'' ''a1'' ''a2''))) ''a1'') = Some 0"
proof -
  define call where "call = the (map_of (calls ringing) ''c1'')"
  define toAgent where "toAgent = the (map_of (agents ringing) ''a2'')"
  have c: "map_of (calls ringing) ''c1'' = Some call" unfolding call_def by code_simp
  have st: "call_status call = RINGING" unfolding call_def by code_simp
  have as: "assignedAgentId call = Some ''a1''" unfolding call_def by code_simp
  have d: "duration call = None" unfolding call_def by code_simp
  have t: "map_of (agents ringing) ''a2'' = Some toAgent" unfolding toAgent_def by code_simp
  have av: "agent_status toAgent = AVAILABLE" unfolding toAgent_def by code_simp
  have ne: "''a2'' \<noteq> ''a1''" by simp
  have before: "map_option agent_status (map_of (agents ringing) ''a1'') = Some IN_CALL"
    "map_option currentCallId (map_of (agents ringing) ''a1'') = Some (Some ''c1'')"
    "map_option (\<lambda>x. totalCalls (agent_statistics x)) (map_of (agents ringing) ''a1'') = Some 0"
    by code_simp+
  from transferCall_live_call_keeps_origin [OF c as d t av ne, of "envAt 2000 []"] c st as t av before
  show ?thesis by simp
qed

subsection \<open>C4: releasing an agent who is not in a call\<close>




subsection \<open>C5: reserving an agent\<close>

text \<open>
  Claim C5: \<open>assignCallToAgent\<close> returns true exactly when the agent exists and is
  \<open>AVAILABLE\<close>. On success the agent is \<open>IN_CALL\<close> with \<open>currentCallId\<close> the given call,
  every other agent is as before, and a further reservation of the same agent is
  refused; on failure the store is unchanged. The function is synchronous, so the check
  and the write are one step.
\<close>

theorem assignCallToAgent_gate:
  "fst (assignCallToAgent env ags agentId callId)
      = (\<exists>a. map_of ags agentId = Some a \<and> agent_status a = AVAILABLE)
   \<and> (fst (assignCallToAgent env ags agentId callId) \<longrightarrow>
        (\<exists>a'. map_of (snd (assignCallToAgent env ags agentId callId)) agentId = Some a'
              \<and> agent_status a' = IN_CALL \<and> currentCallId a' = Some callId)
        \<and> (\<forall>k. k \<noteq> agentId \<longrightarrow>
               map_of (snd (assignCallToAgent env ags agentId callId)) k = map_of ags k)
        \<and> \<not> fst (assignCallToAgent env' (snd (assignCallToAgent env ags agentId callId)) agentId callId'))
   \<and> (\<not> fst (assignCallToAgent env ags agentId callId) \<longrightarrow>
        snd (assignCallToAgent env ags agentId callId) = ags)"
proof (intro conjI impI allI)
  show "fst (assignCallToAgent env ags agentId callId)
      = (\<exists>a. map_of ags agentId = Some a \<and> agent_status a = AVAILABLE)"
    by (rule assign_ok_iff)
next
  assume ok: "fst (assignCallToAgent env ags agentId callId)"
  then obtain a where a: "map_of ags agentId = Some a" by (auto simp: assign_ok_iff)
  show "\<exists>a'. map_of (snd (assignCallToAgent env ags agentId callId)) agentId = Some a'
              \<and> agent_status a' = IN_CALL \<and> currentCallId a' = Some callId"
    using assign_lookup [OF ok, of agentId] a by simp
  show "\<not> fst (assignCallToAgent env' (snd (assignCallToAgent env ags agentId callId)) agentId callId')"
    using assign_lookup [OF ok, of agentId] a by (simp add: assign_ok_iff)
  fix k assume "k \<noteq> agentId"
  then show "map_of (snd (assignCallToAgent env ags agentId callId)) k = map_of ags k"
    using assign_lookup [OF ok, of k] by simp
next
  assume "\<not> fst (assignCallToAgent env ags agentId callId)"
  then show "snd (assignCallToAgent env ags agentId callId) = ags"
    by (rule assign_fail_same)
qed

theorem assignCallToAgent_gate_witness:
  "map_option agent_status (map_of (agents (run (butlast ringingRun) initialSystem)) ''a1'') = Some AVAILABLE
   \<and> fst (assignCallToAgent (envAt 1000 []) (agents (run (butlast ringingRun) initialSystem)) ''a1'' ''c1'')
   \<and> map_option currentCallId
        (map_of (snd (assignCallToAgent (envAt 1000 []) (agents (run (butlast ringingRun) initialSystem)) ''a1'' ''c1'')) ''a1'')
        = Some (Some ''c1'')
   \<and> map_option agent_status (map_of idleAgents ''a1'') = Some OFFLINE
   \<and> assignCallToAgent (envAt 1000 []) idleAgents ''a1'' ''c1'' = (False, idleAgents)"
proof -
  let ?ags = "agents (run (butlast ringingRun) initialSystem)"
  have av: "map_option agent_status (map_of ?ags ''a1'') = Some AVAILABLE" by code_simp
  have off: "map_option agent_status (map_of idleAgents ''a1'') = Some OFFLINE" by code_simp
  from av have ok: "\<exists>a. map_of ?ags ''a1'' = Some a \<and> agent_status a = AVAILABLE" by auto
  from off have no: "\<not> (\<exists>a. map_of idleAgents ''a1'' = Some a \<and> agent_status a = AVAILABLE)" by auto
  have A: "fst (assignCallToAgent (envAt 1000 []) ?ags ''a1'' ''c1'')
     \<and> map_option currentCallId
          (map_of (snd (assignCallToAgent (envAt 1000 []) ?ags ''a1'' ''c1'')) ''a1'') = Some (Some ''c1'')"
    using assignCallToAgent_gate [of "envAt 1000 []" ?ags "''a1''" "''c1''" "envAt 1000 []" "''c2''"] ok
    by auto
  have B: "assignCallToAgent (envAt 1000 []) idleAgents ''a1'' ''c1'' = (False, idleAgents)"
    using assignCallToAgent_gate [of "envAt 1000 []" idleAgents "''a1''" "''c1''" "envAt 1000 []" "''c2''"] no
    by (cases "assignCallToAgent (envAt 1000 []) idleAgents ''a1'' ''c1''") auto
  show ?thesis using A B av off by simp
qed

subsection \<open>C6: overflow candidates and overflow routing\<close>

text \<open>
  Claim C6. When the group is unknown or has overflow disabled, \<open>getAvailableGroups\<close> is
  empty, overflow routing fails without touching the state, and an incoming call for a
  group without an available agent stays \<open>INCOMING\<close> and unassigned. When overflow is
  enabled, the result is the list of the groups named by \<open>overflowGroupIds\<close> that exist and
  have an available agent, in the configured order. And when that list is not empty,
  overflow routing gives the call to the first available agent of its first group, sets
  the \<open>groupId\<close> of the call to that group and reserves the agent. The last part needs
  the agent map to be keyed by agent id, which holds in every reachable state
  (\<open>wellKeyed_reachable\<close>).
\<close>

theorem overflow_candidates_and_routing:
  "(map_of (groups s) gid = None \<or> (\<exists>g. map_of (groups s) gid = Some g \<and> \<not> overflowEnabled g) \<longrightarrow>
       getAvailableGroups s gid = []
     \<and> (groupId call = gid \<longrightarrow> tryOverflowRouting env s call = (False, s, call))
     \<and> (\<forall>g0. getGroupByPhoneNumber s phoneNumber = Some g0 \<and> group_id g0 = gid
               \<and> \<not> hasAvailableAgent s gid \<longrightarrow>
          (\<exists>c. handleIncomingCall env s phoneNumber callerNumber ev = (Some c, storeCall s c)
              \<and> call_status c = INCOMING \<and> assignedAgentId c = None)))
   \<and> (\<forall>g. map_of (groups s) gid = Some g \<and> overflowEnabled g \<longrightarrow>
         getAvailableGroups s gid =
           [og. i \<leftarrow> overflowGroupIds g, Some og \<leftarrow> [map_of (groups s) i],
                hasAvailableAgent s (group_id og)])
   \<and> (\<forall>first others. wellKeyed (agents s) \<and> getAvailableGroups s (groupId call) = first # others \<longrightarrow>
         (\<exists>agent rest s'.
             getAvailableAgentsByGroup (agents s) (group_id first) = agent # rest
           \<and> tryOverflowRouting env s call =
               (True, s', call \<lparr> groupId := group_id first, assignedAgentId := Some (agent_id agent),
                                  call_status := RINGING \<rparr>)
           \<and> map_of (calls s') (call_id call) =
               Some (call \<lparr> groupId := group_id first, assignedAgentId := Some (agent_id agent),
                             call_status := RINGING \<rparr>)
           \<and> (\<exists>a'. map_of (agents s') (agent_id agent) = Some a' \<and> agent_status a' = IN_CALL
                    \<and> currentCallId a' = Some (call_id call))))"
proof (intro conjI impI allI)
  assume off: "map_of (groups s) gid = None \<or> (\<exists>g. map_of (groups s) gid = Some g \<and> \<not> overflowEnabled g)"
  then show none: "getAvailableGroups s gid = []" by (rule getAvailableGroups_disabled)
  {
    assume "groupId call = gid"
    then show "tryOverflowRouting env s call = (False, s, call)"
      using none by (simp add: overflow_none)
  }
  {
    fix g0
    assume h: "getGroupByPhoneNumber s phoneNumber = Some g0 \<and> group_id g0 = gid
               \<and> \<not> hasAvailableAgent s gid"
    then show "\<exists>c. handleIncomingCall env s phoneNumber callerNumber ev = (Some c, storeCall s c)
              \<and> call_status c = INCOMING \<and> assignedAgentId c = None"
      using handleIncomingCall_unassigned [of s phoneNumber g0 env callerNumber ev] none by auto
  }
next
  fix g
  assume "map_of (groups s) gid = Some g \<and> overflowEnabled g"
  then show "getAvailableGroups s gid =
           [og. i \<leftarrow> overflowGroupIds g, Some og \<leftarrow> [map_of (groups s) i],
                hasAvailableAgent s (group_id og)]"
    using getAvailableGroups_comprehension by blast
next
  fix first others
  assume h: "wellKeyed (agents s) \<and> getAvailableGroups s (groupId call) = first # others"
  then have wk: "wellKeyed (agents s)"
    and gs: "getAvailableGroups s (groupId call) = first # others" by auto
  from overflow_first_group [OF wk gs, of env]
  show "\<exists>agent rest s'.
             getAvailableAgentsByGroup (agents s) (group_id first) = agent # rest
           \<and> tryOverflowRouting env s call =
               (True, s', call \<lparr> groupId := group_id first, assignedAgentId := Some (agent_id agent),
                                  call_status := RINGING \<rparr>)
           \<and> map_of (calls s') (call_id call) =
               Some (call \<lparr> groupId := group_id first, assignedAgentId := Some (agent_id agent),
                             call_status := RINGING \<rparr>)
           \<and> (\<exists>a'. map_of (agents s') (agent_id agent) = Some a' \<and> agent_status a' = IN_CALL
                    \<and> currentCallId a' = Some (call_id call))"
    by blast
qed

theorem overflow_candidates_and_routing_witness:
  "wellKeyed (agents overflowReady)
   \<and> map_option overflowEnabled (map_of (groups overflowReady) ''gA'') = Some True
   \<and> map_option overflowGroupIds (map_of (groups overflowReady) ''gA'') = Some [''gB'', ''gZ'', ''gC'']
   \<and> map group_id (getAvailableGroups overflowReady ''gA'') = [''gC'']
   \<and> fst (tryOverflowRouting (envAt 1000 []) overflowReady (incomingCallFor ''gA''))
   \<and> groupId (snd (snd (tryOverflowRouting (envAt 1000 []) overflowReady (incomingCallFor ''gA'')))) = ''gC''
   \<and> assignedAgentId (snd (snd (tryOverflowRouting (envAt 1000 []) overflowReady (incomingCallFor ''gA''))))
        = Some ''a2''
   \<and> map_option overflowEnabled (map_of (groups overflowReady) ''gB'') = Some False
   \<and> getAvailableGroups overflowReady ''gB'' = []
   \<and> tryOverflowRouting (envAt 1000 []) overflowReady (incomingCallFor ''gB'')
        = (False, overflowReady, incomingCallFor ''gB'')
   \<and> map_option call_status
        (fst (handleIncomingCall (envAt 1000 ''c1'') overflowReady ''+15550101'' ''+15550199'' None))
        = Some INCOMING"
proof -
  define gA where "gA = the (map_of (groups overflowReady) ''gA'')"
  define gB where "gB = the (map_of (groups overflowReady) ''gB'')"
  define gC where "gC = the (map_of (groups overflowReady) ''gC'')"
  define a2 where "a2 = the (map_of (agents overflowReady) ''a2'')"
  have wk: "wellKeyed (agents overflowReady)" by code_simp
  have a: "map_of (groups overflowReady) ''gA'' = Some gA" unfolding gA_def by code_simp
  have ae: "overflowEnabled gA" unfolding gA_def by code_simp
  have ai: "overflowGroupIds gA = [''gB'', ''gZ'', ''gC'']" unfolding gA_def by code_simp
  have b: "map_of (groups overflowReady) ''gB'' = Some gB" unfolding gB_def by code_simp
  have be: "\<not> overflowEnabled gB" unfolding gB_def by code_simp
  have bp: "getGroupByPhoneNumber overflowReady ''+15550101'' = Some gB" unfolding gB_def by code_simp
  have bi: "group_id gB = ''gB''" unfolding gB_def by code_simp
  have bn: "\<not> hasAvailableAgent overflowReady ''gB''" by code_simp
  have z: "map_of (groups overflowReady) ''gZ'' = None" by code_simp
  have c: "map_of (groups overflowReady) ''gC'' = Some gC" unfolding gC_def by code_simp
  have ci: "group_id gC = ''gC''" unfolding gC_def by code_simp
  have cy: "hasAvailableAgent overflowReady ''gC''" by code_simp
  have cav: "getAvailableAgentsByGroup (agents overflowReady) ''gC'' = [a2]" unfolding a2_def by code_simp
  have a2i: "agent_id a2 = ''a2''" unfolding a2_def by code_simp
  have cg: "groupId (incomingCallFor ''gA'') = ''gA''" "groupId (incomingCallFor ''gB'') = ''gB''"
    by (simp_all add: incomingCallFor_def)
  note A = overflow_candidates_and_routing [of overflowReady "''gA''" "incomingCallFor ''gA''"
      "envAt 1000 []" "''+15550100''" "''+15550199''" None]
  note B = overflow_candidates_and_routing [of overflowReady "''gB''" "incomingCallFor ''gB''"
      "envAt 1000 ''c1''" "''+15550101''" "''+15550199''" None]
  have l: "getAvailableGroups overflowReady ''gA'' = [gC]"
    using A a ae ai b bi bn z c ci cy by simp
  have r: "fst (tryOverflowRouting (envAt 1000 []) overflowReady (incomingCallFor ''gA''))
   \<and> groupId (snd (snd (tryOverflowRouting (envAt 1000 []) overflowReady (incomingCallFor ''gA'')))) = ''gC''
   \<and> assignedAgentId (snd (snd (tryOverflowRouting (envAt 1000 []) overflowReady (incomingCallFor ''gA''))))
        = Some ''a2''"
    using A wk l cg ci cav a2i by auto
  have d: "getAvailableGroups overflowReady ''gB'' = []
   \<and> tryOverflowRouting (envAt 1000 ''c1'') overflowReady (incomingCallFor ''gB'')
        = (False, overflowReady, incomingCallFor ''gB'')
   \<and> map_option call_status
        (fst (handleIncomingCall (envAt 1000 ''c1'') overflowReady ''+15550101'' ''+15550199'' None))
        = Some INCOMING"
    using B b be bp bi bn cg by auto
  have d': "tryOverflowRouting (envAt 1000 []) overflowReady (incomingCallFor ''gB'')
        = (False, overflowReady, incomingCallFor ''gB'')"
    using overflow_candidates_and_routing [of overflowReady "''gB''" "incomingCallFor ''gB''"
      "envAt 1000 []" "''+15550101''" "''+15550199''" None] b be cg by auto
  show ?thesis using wk a ae ai l ci r b be d d' by simp
qed

subsection \<open>C7: a number that no group owns\<close>

text \<open>
  Claim C7: when no group has the destination number, \<open>handleIncomingCall\<close> returns
  nothing and the whole state, the call store included, is unchanged.
\<close>

theorem handleIncomingCall_unmapped_number:
  assumes "getGroupByPhoneNumber s phoneNumber = None"
  shows "handleIncomingCall env s phoneNumber callerNumber acsEventData = (None, s)"
  using assms by (simp add: handleIncomingCall_def)

theorem handleIncomingCall_unmapped_number_witness:
  "getGroupByPhoneNumber ringing ''+15550999'' = None
   \<and> fst (handleIncomingCall (envAt 5000 ''c2'') ringing ''+15550999'' ''+15550199'' None) = None
   \<and> calls (snd (handleIncomingCall (envAt 5000 ''c2'') ringing ''+15550999'' ''+15550199'' None))
        = calls ringing"
proof -
  have h: "getGroupByPhoneNumber ringing ''+15550999'' = None" by code_simp
  from handleIncomingCall_unmapped_number [OF h, of "envAt 5000 ''c2''" "''+15550199''" None] h
  show ?thesis by simp
qed

subsection \<open>C8: answering a call\<close>

text \<open>
  Claim C8: \<open>answerCall\<close> succeeds only for an existing call that is \<open>RINGING\<close> and assigned
  to the answering agent, and only when the gateway reports success; the call is then
  \<open>CONNECTED\<close>. Whenever it fails the state is unchanged, so after a gateway failure the
  call is still \<open>RINGING\<close>. For a ringing call of the agent, the verdict of \<open>answerCall\<close> is
  the verdict of the gateway.
\<close>

theorem answerCall_contract:
  "(fst (answerCall env s callId agentId) \<longrightarrow>
      (\<exists>call. map_of (calls s) callId = Some call \<and> assignedAgentId call = Some agentId
           \<and> call_status call = RINGING
           \<and> fst (acsAnswerCall env call (agentACSUserId s agentId) agentId))
      \<and> map_option call_status (map_of (calls (snd (answerCall env s callId agentId))) callId)
            = Some CONNECTED)
   \<and> (\<not> fst (answerCall env s callId agentId) \<longrightarrow> snd (answerCall env s callId agentId) = s)
   \<and> (\<forall>call. map_of (calls s) callId = Some call \<and> assignedAgentId call = Some agentId
           \<and> call_status call = RINGING \<longrightarrow>
         fst (answerCall env s callId agentId)
           = fst (acsAnswerCall env call (agentACSUserId s agentId) agentId))"
proof (intro conjI impI allI)
  assume ok: "fst (answerCall env s callId agentId)"
  from answer_success [OF ok]
  show "\<exists>call. map_of (calls s) callId = Some call \<and> assignedAgentId call = Some agentId
           \<and> call_status call = RINGING
           \<and> fst (acsAnswerCall env call (agentACSUserId s agentId) agentId)"
    by blast
  from answer_success [OF ok]
  show "map_option call_status (map_of (calls (snd (answerCall env s callId agentId))) callId)
            = Some CONNECTED"
    by blast
next
  assume "\<not> fst (answerCall env s callId agentId)"
  then show "snd (answerCall env s callId agentId) = s" by (rule answer_fail_unchanged)
next
  fix call
  assume p: "map_of (calls s) callId = Some call \<and> assignedAgentId call = Some agentId
           \<and> call_status call = RINGING"
  show "fst (answerCall env s callId agentId)
           = fst (acsAnswerCall env call (agentACSUserId s agentId) agentId)"
  proof (cases "fst (acsAnswerCall env call (agentACSUserId s agentId) agentId)")
    case True
    then show ?thesis using answer_gateway_success [of s callId call agentId env] p by simp
  next
    case False
    then show ?thesis using answer_gateway_failure [of s callId call agentId env] p by simp
  qed
qed

theorem answerCall_contract_witness:
  "map_option call_status (map_of (calls ringingWithContext) ''c1'') = Some RINGING
   \<and> map_option assignedAgentId (map_of (calls ringingWithContext) ''c1'') = Some (Some ''a1'')
   \<and> answerCall (gatewayEnv AnswerThrows) ringingWithContext ''c1'' ''a1'' = (False, ringingWithContext)
   \<and> fst (answerCall (gatewayEnv (AnswerReturns (Some ''conn''))) ringingWithContext ''c1'' ''a1'')
   \<and> map_option call_status
        (map_of (calls (snd (answerCall (gatewayEnv (AnswerReturns (Some ''conn''))) ringingWithContext ''c1'' ''a1''))) ''c1'')
        = Some CONNECTED
   \<and> \<not> fst (answerCall (gatewayEnv (AnswerReturns (Some ''conn''))) ringingWithContext ''c1'' ''a2'')"
proof -
  define call where "call = the (map_of (calls ringingWithContext) ''c1'')"
  have c: "map_of (calls ringingWithContext) ''c1'' = Some call" unfolding call_def by code_simp
  have st: "call_status call = RINGING" unfolding call_def by code_simp
  have as: "assignedAgentId call = Some ''a1''" unfolding call_def by code_simp
  have down: "\<not> fst (acsAnswerCall (gatewayEnv AnswerThrows) call (agentACSUserId ringingWithContext ''a1'') ''a1'')"
    unfolding call_def by code_simp
  have up: "fst (acsAnswerCall (gatewayEnv (AnswerReturns (Some ''conn''))) call (agentACSUserId ringingWithContext ''a1'') ''a1'')"
    unfolding call_def by code_simp
  have A: "answerCall (gatewayEnv AnswerThrows) ringingWithContext ''c1'' ''a1'' = (False, ringingWithContext)"
    using answerCall_contract [of "gatewayEnv AnswerThrows" ringingWithContext "''c1''" "''a1''"] c st as down
    by (cases "answerCall (gatewayEnv AnswerThrows) ringingWithContext ''c1'' ''a1''") auto
  have B: "fst (answerCall (gatewayEnv (AnswerReturns (Some ''conn''))) ringingWithContext ''c1'' ''a1'')
     \<and> map_option call_status
        (map_of (calls (snd (answerCall (gatewayEnv (AnswerReturns (Some ''conn''))) ringingWithContext ''c1'' ''a1''))) ''c1'')
        = Some CONNECTED"
    using answerCall_contract [of "gatewayEnv (AnswerReturns (Some ''conn''))" ringingWithContext "''c1''" "''a1''"]
      c st as up by auto
  have C: "\<not> fst (answerCall (gatewayEnv (AnswerReturns (Some ''conn''))) ringingWithContext ''c1'' ''a2'')"
    using answerCall_contract [of "gatewayEnv (AnswerReturns (Some ''conn''))" ringingWithContext "''c1''" "''a2''"]
      c as by auto
  show ?thesis using A B C c st as by simp
qed

subsection \<open>C9: adding an agent to a group twice\<close>

text \<open>
  Claim C9: for an existing group and an existing agent, \<open>addAgentToGroup\<close> returns true
  and appends the agent to \<open>agentIds\<close> and the group to \<open>groupIds\<close> only where they are
  missing; called again, it returns true and leaves the whole state as the first call
  left it.
\<close>

theorem addAgentToGroup_idempotent:
  assumes "map_of (groups s) gid = Some g" and "map_of (agents s) agentId = Some a"
  shows "fst (addAgentToGroup env s gid agentId)
     \<and> map_option agentIds (map_of (groups (snd (addAgentToGroup env s gid agentId))) gid)
         = Some (if agentId \<in> set (agentIds g) then agentIds g else agentIds g @ [agentId])
     \<and> map_option groupIds (map_of (agents (snd (addAgentToGroup env s gid agentId))) agentId)
         = Some (if gid \<in> set (groupIds a) then groupIds a else groupIds a @ [gid])
     \<and> addAgentToGroup env' (snd (addAgentToGroup env s gid agentId)) gid agentId
         = (True, snd (addAgentToGroup env s gid agentId))"
  using addAgentToGroup_first [OF assms, of env] addAgentToGroup_twice [OF assms, of env' env]
  by simp

theorem addAgentToGroup_idempotent_witness:
  "fst (addAgentToGroup (envAt 10 []) ringing ''g1'' ''a2'')
   \<and> map_option agentIds (map_of (groups (snd (addAgentToGroup (envAt 10 []) ringing ''g1'' ''a2''))) ''g1'')
        = Some [''a1'', ''a2'']
   \<and> map_option groupIds (map_of (agents (snd (addAgentToGroup (envAt 10 []) ringing ''g1'' ''a2''))) ''a2'')
        = Some [''g1'']
   \<and> addAgentToGroup (envAt 11 []) (snd (addAgentToGroup (envAt 10 []) ringing ''g1'' ''a2'')) ''g1'' ''a2''
        = (True, snd (addAgentToGroup (envAt 10 []) ringing ''g1'' ''a2''))"
proof -
  define g where "g = the (map_of (groups ringing) ''g1'')"
  define a where "a = the (map_of (agents ringing) ''a2'')"
  have hg: "map_of (groups ringing) ''g1'' = Some g" unfolding g_def by code_simp
  have ha: "map_of (agents ringing) ''a2'' = Some a" unfolding a_def by code_simp
  have l: "agentIds g = [''a1'']" "groupIds a = []" unfolding g_def a_def by code_simp+
  from addAgentToGroup_idempotent [OF hg ha, of "envAt 10 []" "envAt 11 []"] l
  show ?thesis by simp
qed

subsection \<open>C10: transferring a call that has ended\<close>

text \<open>
  Claim C10: \<open>transferCall\<close> does not look at the status of the call. For a call that is
  \<open>ENDED\<close> and still carries its agent (\<open>endCall\<close> keeps \<open>assignedAgentId\<close>, see
  \<open>endCall_result\<close>) and a target agent who is \<open>AVAILABLE\<close>, it returns true, the call
  becomes \<open>TRANSFERRED\<close> and assigned to the target, and the target is \<open>IN_CALL\<close> with
  that call as its \<open>currentCallId\<close>.
\<close>

theorem transferCall_accepts_ended_call:
  assumes "map_of (calls s) callId = Some call" and "call_status call = ENDED"
    and "assignedAgentId call = Some fromAgentId"
    and "map_of (agents s) toAgentId = Some toAgent" and "agent_status toAgent = AVAILABLE"
  shows "fst (transferCall env s callId fromAgentId toAgentId)
     \<and> map_of (calls (snd (transferCall env s callId fromAgentId toAgentId))) callId
          = Some (call \<lparr> assignedAgentId := Some toAgentId, call_status := TRANSFERRED \<rparr>)
     \<and> (\<exists>ta'. map_of (agents (snd (transferCall env s callId fromAgentId toAgentId))) toAgentId = Some ta'
             \<and> agent_status ta' = IN_CALL \<and> currentCallId ta' = Some callId)"
  using transfer_result [OF assms(1,3,4,5), of env] by blast

theorem transferCall_accepts_ended_call_witness:
  "map_option call_status (map_of (calls endedOnce) ''c1'') = Some ENDED
   \<and> map_option assignedAgentId (map_of (calls endedOnce) ''c1'') = Some (Some ''a1'')
   \<and> map_option agent_status (map_of (agents endedOnce) ''a2'') = Some AVAILABLE
   \<and> fst (transferCall (envAt 70000 []) endedOnce ''c1'' ''a1'' ''a2'')
   \<and> map_option call_status
        (map_of (calls (snd (transferCall (envAt 70000 []) endedOnce ''c1'' ''a1'' ''a2''))) ''c1'') = Some TRANSFERRED
   \<and> map_option assignedAgentId
        (map_of (calls (snd (transferCall (envAt 70000 []) endedOnce ''c1'' ''a1'' ''a2''))) ''c1'') = Some (Some ''a2'')
   \<and> map_option agent_status
        (map_of (agents (snd (transferCall (envAt 70000 []) endedOnce ''c1'' ''a1'' ''a2''))) ''a2'') = Some IN_CALL
   \<and> map_option currentCallId
        (map_of (agents (snd (transferCall (envAt 70000 []) endedOnce ''c1'' ''a1'' ''a2''))) ''a2'') = Some (Some ''c1'')"
proof -
  define call where "call = the (map_of (calls endedOnce) ''c1'')"
  define toAgent where "toAgent = the (map_of (agents endedOnce) ''a2'')"
  have c: "map_of (calls endedOnce) ''c1'' = Some call" unfolding call_def by code_simp
  have st: "call_status call = ENDED" unfolding call_def by code_simp
  have as: "assignedAgentId call = Some ''a1''" unfolding call_def by code_simp
  have t: "map_of (agents endedOnce) ''a2'' = Some toAgent" unfolding toAgent_def by code_simp
  have av: "agent_status toAgent = AVAILABLE" unfolding toAgent_def by code_simp
  from transferCall_accepts_ended_call [OF c st as t av, of "envAt 70000 []"] c st as t av
  show ?thesis by auto
qed

end
